theory Spec2Isabelle
  imports Complex_Main "HOL-Library.Word" "HOL-Library.Char_ord" "HOL-Library.List_Lexorder"
    "HOL-Library.Sublist"
begin

chapter \<open>The data viewer's view cache (DataViewer.cpp)\<close>

section \<open>The numeric filter pattern\<close>

text \<open>
  \<^verbatim>\<open>boost::regex numFilter("(\\d+\\.?\\d*)-(\\d+\\.?\\d*)")\<close> is a Perl-syntax pattern:
  every quantifier is greedy and the matcher backtracks depth-first, so the match that is
  reported at a start position is the first one in the order "longest alternative first".
  Each piece of the pattern is modelled by the list of its possible matches at the head of
  the text, in that order, as pairs (matched text, remaining text).
\<close>

definition isdigit :: "char \<Rightarrow> bool" where
  "isdigit c = (c \<in> set ''0123456789'')"

text \<open>\<^verbatim>\<open>\d*\<close>: any run of leading digits, the longest first, the empty run last.\<close>

fun digits_star :: "string \<Rightarrow> (string \<times> string) list" where
  "digits_star [] = [([], [])]"
| "digits_star (c # cs) =
     (if isdigit c then map (\<lambda>(t, r). (c # t, r)) (digits_star cs) @ [([], c # cs)]
      else [([], c # cs)])"

text \<open>\<^verbatim>\<open>\d+\<close>: as \<^verbatim>\<open>\d*\<close>, without the empty run.\<close>

definition digits_plus :: "string \<Rightarrow> (string \<times> string) list" where
  "digits_plus s = filter (\<lambda>(t, r). t \<noteq> []) (digits_star s)"

text \<open>\<^verbatim>\<open>\.?\<close>: the dot if there is one, then the empty match.\<close>

fun opt_dot :: "string \<Rightarrow> (string \<times> string) list" where
  "opt_dot [] = [([], [])]"
| "opt_dot (c # cs) =
     (if c = CHR ''.'' then [([c], cs), ([], c # cs)] else [([], c # cs)])"

text \<open>\<^verbatim>\<open>\d+\.?\d*\<close>, one bound of the range.\<close>

definition bound :: "string \<Rightarrow> (string \<times> string) list" where
  "bound s =
     concat (map (\<lambda>(a, r1).
       concat (map (\<lambda>(b, r2).
         map (\<lambda>(c, r3). (a @ b @ c, r3)) (digits_star r2)) (opt_dot r1))) (digits_plus s))"

text \<open>The literal \<^verbatim>\<open>-\<close> between the two groups.\<close>

fun dash :: "string \<Rightarrow> string list" where
  "dash [] = []"
| "dash (c # cs) = (if c = CHR ''-'' then [cs] else [])"

text \<open>
  The whole pattern at the head of the text: (group 1, group 2, text after the match),
  in backtracking order.
\<close>

definition numFilter :: "string \<Rightarrow> (string \<times> string \<times> string) list" where
  "numFilter s =
     concat (map (\<lambda>(g1, r1).
       concat (map (\<lambda>r2.
         map (\<lambda>(g2, r3). (g1, g2, r3)) (bound r2)) (dash r1))) (bound s))"

text \<open>
  \<^verbatim>\<open>boost::regex_search\<close>: the pattern is tried at every position from the left and the
  first position with a match wins; the result carries the two capture groups
  (\<^verbatim>\<open>match[1]\<close>, \<^verbatim>\<open>match[2]\<close>). \<open>None\<close> is the \<^verbatim>\<open>false\<close> return.
\<close>

fun regex_search :: "string \<Rightarrow> (string \<times> string) option" where
  "regex_search [] = None"
| "regex_search (c # cs) =
     (case numFilter (c # cs) of
        (g1, g2, r) # _ \<Rightarrow> Some (g1, g2)
      | [] \<Rightarrow> regex_search cs)"

section \<open>isFilterSubset\<close>

text \<open>
  \<^verbatim>\<open>safe_convert::stringTo<double>(text, defaultValue)\<close> is declared in
  core/SafeConvert.hpp, which is not part of the sources at hand. It is a parameter
  \<open>stringTo\<close> of the comparison: a function from the matched text and the default value
  to a linearly ordered type of numbers. The comparison calls it with the default 0 for
  each of the four bounds. Every general statement below holds for each such function.
\<close>

definition isFilterSubset ::
  "(string \<Rightarrow> 'n \<Rightarrow> 'n::{linorder,zero}) \<Rightarrow> string \<Rightarrow> string \<Rightarrow> bool" where
  "isFilterSubset stringTo outer inner =
     (if inner = outer then True
      else case regex_search inner of
        Some (inner1, inner2) \<Rightarrow>
          (case regex_search outer of
             Some (outer1, outer2) \<Rightarrow>
               stringTo inner1 0 \<ge> stringTo outer1 0 \<and> stringTo inner2 0 \<le> stringTo outer2 0
           | None \<Rightarrow>
               (if length inner < length outer then False
                else if take (length outer) inner \<noteq> outer then False
                else True))
      | None \<Rightarrow>
          (if length inner < length outer then False
           else if take (length outer) inner \<noteq> outer then False
           else True))"

text \<open>
  Modelled from the spec: the conversion \<^verbatim>\<open>safe_convert::stringTo<double>\<close> itself
  (core/SafeConvert.hpp is missing). The spec says that a bound is read as a number and
  that a text that cannot be read counts as the default, 0. \<open>stringTo_decimal\<close> reads
  \<^verbatim>\<open>digits[.digits]\<close> as the exact decimal fraction it denotes and gives the default
  value for any other text. It is used for the concrete checks only, on bounds that a
  double holds exactly.
\<close>

definition digit_val :: "char \<Rightarrow> nat" where
  "digit_val c = of_char c - 48"

definition decimal_nat :: "string \<Rightarrow> nat" where
  "decimal_nat ds = foldl (\<lambda>acc c. 10 * acc + digit_val c) 0 ds"

definition stringTo_decimal :: "string \<Rightarrow> rat \<Rightarrow> rat" where
  "stringTo_decimal s defaultValue =
     (let ip = takeWhile isdigit s; rest = dropWhile isdigit s in
      if ip = [] then defaultValue
      else if rest = [] then of_nat (decimal_nat ip)
      else if hd rest = CHR ''.'' \<and> list_all isdigit (tl rest)
        then of_nat (decimal_nat ip) + of_nat (decimal_nat (tl rest)) / 10 ^ length (tl rest)
      else defaultValue)"

text \<open>
  Modelled from the spec: the shape of every such conversion. It has a reader that may
  fail, and gives the value read or else the default value handed to it.
\<close>

definition stringTo_of :: "(string \<Rightarrow> 'n option) \<Rightarrow> string \<Rightarrow> 'n \<Rightarrow> 'n" where
  "stringTo_of parse s defaultValue = (case parse s of Some v \<Rightarrow> v | None \<Rightarrow> defaultValue)"

text \<open>A reader that knows the ten digits and nothing else, for the concrete checks.\<close>

definition one_digit :: "string \<Rightarrow> rat option" where
  "one_digit s = (if length s = 1 \<and> isdigit (hd s) then Some (of_nat (digit_val (hd s))) else None)"


section \<open>Values of the R session and calls into it\<close>

text \<open>
  A \<^verbatim>\<open>SEXP\<close> is a pointer into the R heap. The module only ever tests it against the
  null pointer, \<^verbatim>\<open>R_NilValue\<close> and \<^verbatim>\<open>R_UnboundValue\<close>, asks whether it is a promise,
  compares two of them for identity, and hands it back to R; \<open>'v\<close> stands for every other
  R object.
\<close>

datatype 'v SEXP = NULL | R_NilValue | R_UnboundValue | Promise "'v SEXP" | Value 'v

text \<open>\<^verbatim>\<open>x == NULL || TYPEOF(x) == NILSXP || Rf_isNull(x)\<close>\<close>

definition isNullSEXP :: "'v SEXP \<Rightarrow> bool" where
  "isNullSEXP x = (x = NULL \<or> x = R_NilValue)"

text \<open>
  \<^verbatim>\<open>RFunction(...).call(&out)\<close> returns an \<^verbatim>\<open>Error\<close> and may store a result through the
  pointer. \<open>callError\<close> is the error's summary when the call failed; \<open>written\<close> is what
  was stored, \<open>None\<close> when the variable behind the pointer was left as it was.
\<close>

datatype 'a rcall = RCall (callError: "string option") (written: "'a option")

definition assigned :: "'a \<Rightarrow> 'a rcall \<Rightarrow> 'a" where
  "assigned old call = (case written call of None \<Rightarrow> old | Some v \<Rightarrow> v)"

type_synonym int32 = "32 word"

text \<open>
  \<^verbatim>\<open>http::Fields\<close> with \<^verbatim>\<open>http::util::fieldValue<T>(fields, name, defaultValue)\<close>
  (core/http, not part of the sources at hand): the parsed query, read by field name.
\<close>

record Fields =
  fieldValue_int :: "string \<Rightarrow> int32 \<Rightarrow> int32"
  fieldValue_string :: "string \<Rightarrow> string \<Rightarrow> string"

text \<open>
  Everything the module calls that is not defined in DataViewer.cpp: the R functions it
  invokes through \<^verbatim>\<open>r::exec::RFunction\<close>, the R API, the http utilities, and the values
  that variables read before their first assignment happen to hold (\<open>uninit_*\<close>). During
  one request the R session is one fixed such record; the calls that change it
  (\<^verbatim>\<open>.rs.saveWorkingData\<close>, \<^verbatim>\<open>.rs.removeWorkingData\<close>) and the client events and log
  entries are recorded as effects, in the order they are made.
\<close>

record 'v host =
  nrow_R :: "'v SEXP \<Rightarrow> int32 rcall"
  ncol_R :: "'v SEXP \<Rightarrow> int32 rcall"
  names_R :: "'v SEXP \<Rightarrow> 'v SEXP rcall"
  extract_strings :: "'v SEXP \<Rightarrow> string list rcall"
  R_GlobalEnv :: "'v SEXP"
  as_environment :: "string \<Rightarrow> 'v SEXP rcall"
  findVar :: "string \<Rightarrow> 'v SEXP \<Rightarrow> 'v SEXP"
  findDataFrame :: "string \<Rightarrow> string \<Rightarrow> string \<Rightarrow> string \<Rightarrow> 'v SEXP rcall"
  findWorkingData :: "string \<Rightarrow> 'v SEXP rcall"
  applyTransform :: "'v SEXP \<Rightarrow> string list \<Rightarrow> string \<Rightarrow> int32 \<Rightarrow> string \<Rightarrow> 'v SEXP rcall"
  formatDataColumn :: "'v SEXP \<Rightarrow> int32 \<Rightarrow> int32 \<Rightarrow> 'v SEXP rcall"
  formatRowNames :: "'v SEXP \<Rightarrow> int32 \<Rightarrow> int32 \<Rightarrow> 'v SEXP rcall"
  describeCols :: "'v SEXP \<Rightarrow> 'v SEXP rcall"
  VECTOR_ELT :: "'v SEXP \<Rightarrow> nat \<Rightarrow> 'v SEXP"
  STRING_ELT :: "'v SEXP \<Rightarrow> nat \<Rightarrow> 'v SEXP"
  NA_STRING :: "'v SEXP"
  sexp_length :: "'v SEXP \<Rightarrow> int"
  translateChar :: "'v SEXP \<Rightarrow> string"
  viewerCacheDir :: string
  urlDecode :: "string \<Rightarrow> string"
  parseQueryString :: "string \<Rightarrow> Fields"
  uninit_SEXP :: "'v SEXP"
  uninit_ncol :: int32
  uninit_workingOrderCol :: int32

datatype 'v effect =
    ApplyTransform "'v SEXP" "string list" string int32 string
  | SaveWorkingData string "'v SEXP"
  | RemoveWorkingData string
  | DataViewChanged string bool
  | LogError string

section \<open>CachedFrame and the set of active frames\<close>

record 'v CachedFrame =
  envName :: string
  objName :: string
  ncol :: int32
  colNames :: "string list"
  workingSearch :: string
  workingFilters :: "string list"
  workingOrderCol :: int32
  workingOrderDir :: string
  observedSEXP :: "'v SEXP"

text \<open>
  The constructor \<^verbatim>\<open>CachedFrame(env, obj, sexp)\<close>. It initialises \<^verbatim>\<open>envName\<close>,
  \<^verbatim>\<open>objName\<close> and \<^verbatim>\<open>observedSEXP\<close>; the strings and vectors start empty; \<^verbatim>\<open>ncol\<close>
  and \<^verbatim>\<open>workingOrderCol\<close> are plain ints without an initialiser. It returns at once
  for a null \<^verbatim>\<open>sexp\<close>.
\<close>

definition CachedFrame_new :: "'v host \<Rightarrow> string \<Rightarrow> string \<Rightarrow> 'v SEXP \<Rightarrow> 'v CachedFrame" where
  "CachedFrame_new R env obj sexp =
     (let this = \<lparr>envName = env, objName = obj, ncol = uninit_ncol R, colNames = [],
                  workingSearch = [], workingFilters = [],
                  workingOrderCol = uninit_workingOrderCol R, workingOrderDir = [],
                  observedSEXP = sexp\<rparr>
      in if sexp = NULL then this
         else
           let namesSEXP = assigned (uninit_SEXP R) (names_R R sexp);
               this1 = (if \<not> isNullSEXP namesSEXP
                        then this\<lparr>colNames := assigned [] (extract_strings R namesSEXP)\<rparr>
                        else this)
           in this1\<lparr>ncol := assigned (uninit_ncol R) (ncol_R R sexp)\<rparr>)"

text \<open>
  The loop of \<^verbatim>\<open>isSupersetOf\<close>, from index \<open>i\<close> on; \<^verbatim>\<open>return false\<close> leaves it early.
  (The index is an \<^verbatim>\<open>unsigned\<close>; filter lists have one entry per column and stay far
  below its range.)
\<close>

function filtersLoop ::
  "(string \<Rightarrow> 'n \<Rightarrow> 'n::{linorder,zero}) \<Rightarrow> string list \<Rightarrow> string list \<Rightarrow> nat \<Rightarrow> bool" where
  "filtersLoop stringTo working newFilters i =
     (if i < min (length newFilters) (length working)
      then (if \<not> isFilterSubset stringTo (working ! i) (newFilters ! i) then False
            else filtersLoop stringTo working newFilters (Suc i))
      else True)"
  by pat_completeness auto
termination
  by (relation "measure (\<lambda>(stringTo, working, newFilters, i).
        min (length newFilters) (length working) - i)") auto

declare filtersLoop.simps [simp del]

definition isSupersetOf ::
  "(string \<Rightarrow> 'n \<Rightarrow> 'n::{linorder,zero}) \<Rightarrow> 'v CachedFrame \<Rightarrow> string \<Rightarrow> string list \<Rightarrow> bool" where
  "isSupersetOf stringTo this newSearch newFilters =
     (if \<not> isFilterSubset stringTo (workingSearch this) newSearch then False
      else filtersLoop stringTo (workingFilters this) newFilters 0)"

text \<open>
  \<^verbatim>\<open>std::map<std::string, CachedFrame> s_cachedFrames\<close>: the entries in the order of their
  keys, each key once. \<open>map_of\<close> is \<^verbatim>\<open>find\<close>; \<open>map_assign\<close> is
  \<^verbatim>\<open>s_cachedFrames[key] = frame\<close>, which replaces the entry of a key that is present and
  inserts a new entry at its place in the order otherwise.
\<close>

type_synonym 'v frames = "(string \<times> 'v CachedFrame) list"

fun map_assign :: "string \<Rightarrow> 'a \<Rightarrow> (string \<times> 'a) list \<Rightarrow> (string \<times> 'a) list" where
  "map_assign k v [] = [(k, v)]"
| "map_assign k v ((k', v') # rest) =
     (if k = k' then (k, v) # rest
      else if k < k' then (k, v) # (k', v') # rest
      else (k', v') # map_assign k v rest)"

definition kNoBoundEnv :: string where
  "kNoBoundEnv = ''_rs_no_env''"

definition findInNamedEnvir :: "'v host \<Rightarrow> string \<Rightarrow> string \<Rightarrow> 'v SEXP" where
  "findInNamedEnvir R envir name =
     (if envir = kNoBoundEnv then NULL
      else
        let env = (if envir = [] \<or> envir = ''R_GlobalEnv'' then R_GlobalEnv R
                   else assigned NULL (as_environment R envir))
        in if isNullSEXP env then NULL
           else let obj = findVar R name env
                in if obj = R_UnboundValue then NULL else obj)"


section \<open>getData: one page of the grid\<close>

text \<open>\<^verbatim>\<open>boost::lexical_cast<std::string>(i)\<close> for a number that is not negative.\<close>

fun lexical_cast_string :: "nat \<Rightarrow> string" where
  "lexical_cast_string n =
     (if n < 10 then [char_of (48 + n)]
      else lexical_cast_string (n div 10) @ [char_of (48 + n mod 10)])"

declare lexical_cast_string.simps [simp del]

text \<open>
  The filter loop \<^verbatim>\<open>for (int i = 1; i <= ncol; i++)\<close>: one entry per column, read from
  the field \<^verbatim>\<open>columns[i][search][value]\<close>.
\<close>

definition extractFilters :: "Fields \<Rightarrow> int32 \<Rightarrow> string list" where
  "extractFilters fieldsv nc =
     map (\<lambda>i. fieldValue_string fieldsv
                (''columns['' @ lexical_cast_string i @ '']'' @ ''[search][value]'') [])
         [1..<Suc (nat (sint nc))]"

definition hasFilter :: "string list \<Rightarrow> bool" where
  "hasFilter filters = list_ex (\<lambda>filterVal. filterVal \<noteq> []) filters"

text \<open>
  "check to see if we have an ordered/filtered view we can build from": the result is
  the data to go on with and the flags \<^verbatim>\<open>needsTransform\<close> and \<^verbatim>\<open>hasTransform\<close>.
\<close>

definition selectSource ::
  "(string \<Rightarrow> 'n \<Rightarrow> 'n::{linorder,zero}) \<Rightarrow> 'v host \<Rightarrow> 'v frames \<Rightarrow> string \<Rightarrow> 'v SEXP \<Rightarrow>
   string \<Rightarrow> string list \<Rightarrow> string \<Rightarrow> int32 \<Rightarrow> bool \<Rightarrow> 'v SEXP \<times> bool \<times> bool" where
  "selectSource stringTo R frames cacheKey dataSEXP search filters orderdir ordercol
       needsTransform =
     (if needsTransform then
        (case map_of frames cacheKey of
           Some cachedFrame \<Rightarrow>
             (let workingDataSEXP = assigned NULL (findWorkingData R cacheKey)
              in if \<not> isNullSEXP workingDataSEXP then
                   (if workingSearch cachedFrame = search \<and>
                       workingFilters cachedFrame = filters \<and>
                       workingOrderDir cachedFrame = orderdir \<and>
                       workingOrderCol cachedFrame = ordercol
                    then (workingDataSEXP, False, True)
                    else if isSupersetOf stringTo cachedFrame search filters
                    then (workingDataSEXP, needsTransform, False)
                    else (dataSEXP, needsTransform, False))
                 else (dataSEXP, needsTransform, False))
         | None \<Rightarrow> (dataSEXP, needsTransform, False))
      else (dataSEXP, needsTransform, False))"

text \<open>
  "apply transformations if needed". \<open>error\<close> is the function's local \<^verbatim>\<open>Error error\<close>
  as it is when this block is reached; the result of \<^verbatim>\<open>transform.call\<close> is not stored
  in it. The outcome is the exception's message or the data to go on with, the frames
  and the effects.
\<close>

definition applyTransforms ::
  "'v host \<Rightarrow> 'v frames \<Rightarrow> string option \<Rightarrow> string \<Rightarrow> 'v SEXP \<Rightarrow> string list \<Rightarrow> string \<Rightarrow>
   int32 \<Rightarrow> string \<Rightarrow> bool \<Rightarrow> (string + 'v SEXP) \<times> 'v frames \<times> 'v effect list" where
  "applyTransforms R frames error cacheKey dataSEXP filters search ordercol orderdir
       needsTransform =
     (if needsTransform then
        (let call = applyTransform R dataSEXP filters search ordercol orderdir;
             dataSEXP' = assigned dataSEXP call;
             called = [ApplyTransform dataSEXP filters search ordercol orderdir]
         in case error of
              Some summary \<Rightarrow> (Inl summary, frames, called)
            | None \<Rightarrow>
                if isNullSEXP dataSEXP'
                then (Inl ''Failure to sort or filter data'', frames, called)
                else (Inr dataSEXP',
                      (case map_of frames cacheKey of
                         Some cachedFrame \<Rightarrow>
                           map_assign cacheKey
                             (cachedFrame\<lparr>workingSearch := search,
                                          workingFilters := filters,
                                          workingOrderDir := orderdir,
                                          workingOrderCol := ordercol\<rparr>) frames
                       | None \<Rightarrow> frames),
                      called @ [SaveWorkingData cacheKey dataSEXP']))
      else (Inr dataSEXP, frames, []))"

text \<open>
  \<^verbatim>\<open>length = std::min(length, filteredNRow - start)\<close> on 32-bit ints. (Signed overflow is
  undefined in C++; the model wraps, as the machine does.)
\<close>

definition clampLength :: "int32 \<Rightarrow> int32 \<Rightarrow> int32 \<Rightarrow> int32" where
  "clampLength len filteredNRow start =
     (if sint (filteredNRow - start) < sint len then filteredNRow - start else len)"

text \<open>
  The loop over the columns, \<^verbatim>\<open>for (unsigned i = 0; i < static_cast<unsigned>(ncol); i++)\<close>,
  run over the list of its indices. A missing column and a failed format call throw.
\<close>

fun formatColumns ::
  "'v host \<Rightarrow> 'v SEXP \<Rightarrow> int32 \<Rightarrow> int32 \<Rightarrow> nat list \<Rightarrow> string + 'v SEXP list" where
  "formatColumns R dataSEXP start len [] = Inr []"
| "formatColumns R dataSEXP start len (i # rest) =
     (let columnSEXP = VECTOR_ELT R dataSEXP i
      in if isNullSEXP columnSEXP
         then Inl (''No data in column '' @ lexical_cast_string i)
         else
           let call = formatDataColumn R columnSEXP start len
           in case callError call of
                Some summary \<Rightarrow> Inl summary
              | None \<Rightarrow>
                  (case formatColumns R dataSEXP start len rest of
                     Inl message \<Rightarrow> Inl message
                   | Inr formatted \<Rightarrow> Inr (assigned (uninit_SEXP R) call # formatted)))"

datatype cell = JString string | JInt int32

definition rowLabel :: "'v host \<Rightarrow> 'v SEXP \<Rightarrow> int32 \<Rightarrow> nat \<Rightarrow> cell" where
  "rowLabel R rownamesSEXP start row =
     (if \<not> isNullSEXP rownamesSEXP then
        (let nameSEXP = STRING_ELT R rownamesSEXP row
         in if nameSEXP \<noteq> NULL \<and> nameSEXP \<noteq> NA_STRING R \<and> sexp_length R nameSEXP > 0
            then JString (translateChar R nameSEXP)
            else JInt (of_nat row + start))
      else JInt (of_nat row + start))"

definition cellText :: "'v host \<Rightarrow> 'v SEXP \<Rightarrow> nat \<Rightarrow> cell" where
  "cellText R columnSEXP row =
     (if \<not> isNullSEXP columnSEXP then
        (let stringSEXP = STRING_ELT R columnSEXP row
         in if stringSEXP \<noteq> NULL \<and> stringSEXP \<noteq> NA_STRING R \<and> sexp_length R stringSEXP > 0
            then JString (translateChar R stringSEXP)
            else JString [])
      else JString [])"

text \<open>"create the result grid as JSON": \<^verbatim>\<open>for (int row = 0; row < length; row++)\<close>.\<close>

definition makeGrid ::
  "'v host \<Rightarrow> 'v SEXP \<Rightarrow> 'v SEXP list \<Rightarrow> int32 \<Rightarrow> int32 \<Rightarrow> cell list list" where
  "makeGrid R rownamesSEXP formattedData start len =
     map (\<lambda>row. rowLabel R rownamesSEXP start row #
                 map (\<lambda>columnSEXP. cellText R columnSEXP row) formattedData)
         [0..<nat (sint len)]"

record grid =
  draw :: int32
  recordsTotal :: int32
  recordsFiltered :: int32
  data :: "cell list list"

text \<open>
  The first block of \<^verbatim>\<open>getData\<close>: the draw parameters read from the fields, the row
  and column counts of the data (\<^verbatim>\<open>int nrow = 1, ncol = 0\<close> when the call stores
  nothing) and the filters, one per column.
\<close>

record request =
  r_draw :: int32
  r_start :: int32
  r_length :: int32
  r_ordercol :: int32
  r_orderdir :: string
  r_search :: string
  r_cacheKey :: string
  r_nrow :: int32
  r_ncol :: int32
  r_filters :: "string list"

definition readRequest :: "'v host \<Rightarrow> 'v SEXP \<Rightarrow> Fields \<Rightarrow> request" where
  "readRequest R dataSEXP fieldsv =
     (let ncolv = assigned 0 (ncol_R R dataSEXP)
      in \<lparr>r_draw = fieldValue_int fieldsv ''draw'' 0,
          r_start = fieldValue_int fieldsv ''start'' 0,
          r_length = fieldValue_int fieldsv ''length'' 0,
          r_ordercol = fieldValue_int fieldsv ''order[0][column]'' (- 1),
          r_orderdir = fieldValue_string fieldsv ''order[0][dir]'' ''asc'',
          r_search = fieldValue_string fieldsv ''search[value]'' [],
          r_cacheKey = urlDecode R (fieldValue_string fieldsv ''cache_key'' []),
          r_nrow = assigned 1 (nrow_R R dataSEXP),
          r_ncol = ncolv,
          r_filters = extractFilters fieldsv ncolv\<rparr>)"

text \<open>\<^verbatim>\<open>bool needsTransform = ordercol > 0 || hasFilter || !search.empty()\<close>\<close>

definition needsTransform0 :: "request \<Rightarrow> bool" where
  "needsTransform0 rq =
     (0 < sint (r_ordercol rq) \<or> hasFilter (r_filters rq) \<or> r_search rq \<noteq> [])"

text \<open>
  The whole of \<^verbatim>\<open>getData\<close>. The outcome is the thrown message or the result object, the
  frames and the effects. \<open>error\<close> is the local \<^verbatim>\<open>Error error\<close>, a success value from
  its declaration up to the format loop.
\<close>

definition getData ::
  "(string \<Rightarrow> 'n \<Rightarrow> 'n::{linorder,zero}) \<Rightarrow> 'v host \<Rightarrow> 'v frames \<Rightarrow> 'v SEXP \<Rightarrow> Fields \<Rightarrow>
   (string + grid) \<times> 'v frames \<times> 'v effect list" where
  "getData stringTo R frames dataSEXP fieldsv =
     (let error = None;
          rq = readRequest R dataSEXP fieldsv;
          (source, needsTransform, hasTransform) =
             selectSource stringTo R frames (r_cacheKey rq) dataSEXP (r_search rq)
               (r_filters rq) (r_orderdir rq) (r_ordercol rq) (needsTransform0 rq)
      in case applyTransforms R frames error (r_cacheKey rq) source (r_filters rq)
                (r_search rq) (r_ordercol rq) (r_orderdir rq) needsTransform of
           (Inl message, frames', effects) \<Rightarrow> (Inl message, frames', effects)
         | (Inr dataSEXP', frames', effects) \<Rightarrow>
             (let filteredNRow = (if needsTransform \<or> hasTransform
                                  then assigned 0 (nrow_R R dataSEXP') else r_nrow rq);
                  len' = clampLength (r_length rq) filteredNRow (r_start rq);
                  start' = r_start rq + 1
              in case formatColumns R dataSEXP' start' len' [0..<unat (r_ncol rq)] of
                   Inl message \<Rightarrow> (Inl message, frames', effects)
                 | Inr formattedData \<Rightarrow>
                     (let rownamesSEXP =
                            assigned (uninit_SEXP R) (formatRowNames R dataSEXP' start' len')
                      in (Inr \<lparr>draw = r_draw rq, recordsTotal = r_nrow rq,
                               recordsFiltered = filteredNRow,
                               data = makeGrid R rownamesSEXP formattedData start' len'\<rparr>,
                          frames', effects))))"

section \<open>getGridData: the request handler\<close>

datatype http_status = Ok | NotFound | InternalServerError

text \<open>
  The JSON values the handler writes: the empty \<^verbatim>\<open>json::Value\<close>, an object with the one
  member \<^verbatim>\<open>error\<close>, the grid, and the column description that
  \<^verbatim>\<open>r::json::jsonValueFromList\<close> makes of the result of \<^verbatim>\<open>.rs.describeCols\<close>.
\<close>

datatype 'v json = JNull | JError string | JGrid grid | JCols "'v SEXP"

record 'v Response =
  statusCode :: http_status
  body :: "'v json option"

definition getCols :: "'v host \<Rightarrow> 'v SEXP \<Rightarrow> 'v json" where
  "getCols R dataSEXP = JCols (assigned NULL (describeCols R dataSEXP))"

text \<open>\<^verbatim>\<open>request.uri().find('?')\<close> and \<^verbatim>\<open>request.uri().substr(pos+1)\<close>.\<close>

definition queryStringOf :: "string \<Rightarrow> string option" where
  "queryStringOf uri =
     (if CHR ''?'' \<in> set uri then Some (tl (dropWhile (\<lambda>c. c \<noteq> CHR ''?'') uri)) else None)"

text \<open>"begin observing if we aren't already"\<close>

definition beginObserving ::
  "'v host \<Rightarrow> 'v frames \<Rightarrow> string \<Rightarrow> string \<Rightarrow> string \<Rightarrow> 'v frames" where
  "beginObserving R frames envNamev objNamev cacheKey =
     (if envNamev \<noteq> kNoBoundEnv then
        (let objSEXP = findInNamedEnvir R envNamev objNamev
         in case map_of frames cacheKey of
              None \<Rightarrow> map_assign cacheKey (CachedFrame_new R envNamev objNamev objSEXP) frames
            | Some it \<Rightarrow> frames)
      else frames)"

text \<open>
  "attempt to find the original copy of the object": \<^verbatim>\<open>SEXP dataSEXP = NULL\<close>, the call
  of \<^verbatim>\<open>.rs.findDataFrame\<close>, whose error is logged, and the step from a promise to its
  value. \<^verbatim>\<open>TYPEOF(dataSEXP)\<close> reads the object before any test for the null pointer:
  when the call has left \<^verbatim>\<open>dataSEXP\<close> null, the handler dereferences the null pointer
  and does not return. The result is that fault or the data, and the log entries.
\<close>

datatype fault = NullPointerDereference

definition findOriginal ::
  "'v host \<Rightarrow> string \<Rightarrow> string \<Rightarrow> string \<Rightarrow> (fault + 'v SEXP) \<times> 'v effect list" where
  "findOriginal R envNamev objNamev cacheKey =
     (let call = findDataFrame R envNamev objNamev cacheKey (viewerCacheDir R);
          logged = (case callError call of
                      Some summary \<Rightarrow> [LogError summary] | None \<Rightarrow> []);
          dataSEXP = assigned NULL call
      in (case dataSEXP of
            NULL \<Rightarrow> (Inl NullPointerDereference, logged)
          | Promise v \<Rightarrow> (Inr v, logged)
          | _ \<Rightarrow> (Inr dataSEXP, logged)))"

text \<open>"couldn't find the original object"\<close>

definition couldNotFind :: "'v SEXP \<Rightarrow> bool" where
  "couldNotFind dataSEXP =
     (dataSEXP = NULL \<or> dataSEXP = R_UnboundValue \<or> isNullSEXP dataSEXP)"

text \<open>
  The handler has two status variables: \<^verbatim>\<open>status\<close>, declared before the \<^verbatim>\<open>try\<close> block
  and given to the response at the end, and \<^verbatim>\<open>statusCode\<close>, declared inside the block.
  The not-found branch assigns \<^verbatim>\<open>statusCode\<close>; the \<^verbatim>\<open>catch\<close> clause assigns
  \<^verbatim>\<open>status\<close>. The two early \<^verbatim>\<open>return Success()\<close> leave the response untouched.
  The body of the response is the JSON value that is written into it. The outcome is
  the response, or the fault at which the handler stops, together with the frames and
  the effects up to there.
\<close>

definition getGridData ::
  "(string \<Rightarrow> 'n \<Rightarrow> 'n::{linorder,zero}) \<Rightarrow> 'v host \<Rightarrow> 'v frames \<Rightarrow> string \<Rightarrow> 'v Response \<Rightarrow>
   (fault + 'v Response) \<times> 'v frames \<times> 'v effect list" where
  "getGridData stringTo R frames uri response =
     (case queryStringOf uri of
        None \<Rightarrow> (Inr response, frames, [])
      | Some queryString \<Rightarrow>
          (let fieldsv = parseQueryString R queryString;
               envNamev = urlDecode R (fieldValue_string fieldsv ''env'' []);
               objNamev = urlDecode R (fieldValue_string fieldsv ''obj'' []);
               cacheKey = urlDecode R (fieldValue_string fieldsv ''cache_key'' []);
               show = fieldValue_string fieldsv ''show'' ''data''
           in if objNamev = [] \<and> cacheKey = [] then (Inr response, frames, [])
              else
                (let frames1 = beginObserving R frames envNamev objNamev cacheKey
                 in case findOriginal R envNamev objNamev cacheKey of
                      (Inl stopped, logged) \<Rightarrow> (Inl stopped, frames1, logged)
                    | (Inr dataSEXP, logged) \<Rightarrow>
                        (let (result, status, statusCodev, frames2, effects) =
                           (if couldNotFind dataSEXP
                            then (JError ''The object no longer exists.'', Ok, NotFound,
                                  frames1, [])
                            else if show = ''cols''
                            then (getCols R dataSEXP, Ok, Ok, frames1, [])
                            else if show = ''data''
                            then (case getData stringTo R frames1 dataSEXP fieldsv of
                                    (Inr g, frames', effects') \<Rightarrow>
                                       (JGrid g, Ok, Ok, frames', effects')
                                  | (Inl message, frames', effects') \<Rightarrow>
                                       (JError message, InternalServerError, Ok,
                                        frames', effects'))
                            else (JNull, Ok, Ok, frames1, []))
                         in (Inr (response\<lparr>statusCode := status, body := Some result\<rparr>),
                             frames2, logged @ effects)))))"

section \<open>onDetectChanges: the change scan\<close>

text \<open>
  The loop over \<^verbatim>\<open>s_cachedFrames\<close>, in the order of the keys. A frame whose object is
  no longer the observed one is replaced in place; the call that clears its working data
  and the client event are recorded. (\<^verbatim>\<open>DROP_RECURSIVE_CALLS\<close> only stops a nested call;
  this is the outermost one.)
\<close>

fun onDetectChanges :: "'v host \<Rightarrow> 'v frames \<Rightarrow> 'v frames \<times> 'v effect list" where
  "onDetectChanges R [] = ([], [])"
| "onDetectChanges R ((key, frame) # rest) =
     (let sexp = findInNamedEnvir R (envName frame) (objName frame);
          (rest', effects) = onDetectChanges R rest
      in if sexp \<noteq> observedSEXP frame then
           (let newFrame = CachedFrame_new R (envName frame) (objName frame) sexp
            in ((key, newFrame) # rest',
                [RemoveWorkingData key,
                 DataViewChanged key (ncol frame \<noteq> ncol newFrame \<or>
                                      colNames frame \<noteq> colNames newFrame)] @ effects))
         else ((key, frame) # rest', effects))"


section \<open>What the handlers leave in a frame\<close>

text \<open>
  The working fields of a frame are written in two places only: the constructor leaves
  the search, the filters and the order direction empty, and \<^verbatim>\<open>getData\<close> records the
  parameters of a request after its transform, that is, of a request with an order
  column above 0, a filter or a search. \<open>registry_ok\<close> says that every frame of the
  registry is of one of these two kinds. It holds of the empty registry, and
  \<^verbatim>\<open>getGridData\<close> and \<^verbatim>\<open>onDetectChanges\<close> keep it (shown below).
\<close>

definition recordsTransform :: "'v CachedFrame \<Rightarrow> bool" where
  "recordsTransform frame =
     (0 < sint (workingOrderCol frame) \<or> hasFilter (workingFilters frame) \<or>
      workingSearch frame \<noteq> [])"

definition frame_ok :: "'v CachedFrame \<Rightarrow> bool" where
  "frame_ok frame =
     ((workingSearch frame = [] \<and> workingFilters frame = [] \<and> workingOrderDir frame = []) \<or>
      recordsTransform frame)"

definition registry_ok :: "'v frames \<Rightarrow> bool" where
  "registry_ok frames = list_all (\<lambda>(key, frame). frame_ok frame) frames"

section \<open>A small R session for the concrete checks\<close>

text \<open>
  The concrete checks below run the handlers against this session: data frames are lists
  of named columns of strings, every call succeeds, a transform returns its input, no
  working data is held and no object is bound, unless a check says otherwise by updating
  a field. The query string is split at \<^verbatim>\<open>&\<close> and at the first \<^verbatim>\<open>=\<close> of each part.
\<close>

datatype rval =
    Frame "(string \<times> string list) list"
  | Column "string list"
  | Names "string list"
  | CharSXP string
  | NA
  | Environment

fun splitAt :: "char \<Rightarrow> string \<Rightarrow> string list" where
  "splitAt sep [] = [[]]"
| "splitAt sep (c # cs) =
     (if c = sep then [] # splitAt sep cs
      else (case splitAt sep cs of
              part # parts \<Rightarrow> (c # part) # parts
            | [] \<Rightarrow> [[c]]))"

definition demo_parseQueryString :: "string \<Rightarrow> Fields" where
  "demo_parseQueryString queryString =
     (let pairs = map (\<lambda>part. (takeWhile (\<lambda>c. c \<noteq> CHR ''='') part,
                                tl (dropWhile (\<lambda>c. c \<noteq> CHR ''='') part)))
                      (splitAt (CHR ''&'') queryString)
      in \<lparr>fieldValue_int =
            (\<lambda>name defaultValue.
               case map_of pairs name of
                 None \<Rightarrow> defaultValue
               | Some v \<Rightarrow> if v \<noteq> [] \<and> list_all isdigit v
                           then of_nat (decimal_nat v) else defaultValue),
          fieldValue_string =
            (\<lambda>name defaultValue.
               case map_of pairs name of None \<Rightarrow> defaultValue | Some v \<Rightarrow> v)\<rparr>)"

definition demo_rows :: "rval SEXP \<Rightarrow> nat" where
  "demo_rows x =
     (case x of Value (Frame ((name, column) # columns)) \<Rightarrow> length column | _ \<Rightarrow> 0)"

definition demoHost :: "rval host" where
  "demoHost =
     \<lparr>nrow_R = (\<lambda>x. RCall None (Some (of_nat (demo_rows x)))),
      ncol_R = (\<lambda>x. RCall None
                  (Some (case x of Value (Frame columns) \<Rightarrow> of_nat (length columns) | _ \<Rightarrow> 0))),
      names_R = (\<lambda>x. RCall None
                  (Some (case x of Value (Frame columns) \<Rightarrow> Value (Names (map fst columns))
                         | _ \<Rightarrow> R_NilValue))),
      extract_strings = (\<lambda>x. RCall None
                  (Some (case x of Value (Names names) \<Rightarrow> names | _ \<Rightarrow> []))),
      R_GlobalEnv = Value Environment,
      as_environment = (\<lambda>name. RCall None (Some (Value Environment))),
      findVar = (\<lambda>name env. R_UnboundValue),
      findDataFrame = (\<lambda>env obj cacheKey cacheDir. RCall None (Some R_NilValue)),
      findWorkingData = (\<lambda>cacheKey. RCall None (Some R_NilValue)),
      applyTransform = (\<lambda>x filtered search col dir. RCall None (Some x)),
      formatDataColumn = (\<lambda>x start len. RCall None
                  (Some (case x of
                           Value (Column strings) \<Rightarrow>
                             Value (Column (take (nat (sint len))
                                             (drop (nat (sint start) - 1) strings)))
                         | _ \<Rightarrow> R_NilValue))),
      formatRowNames = (\<lambda>x start len. RCall None (Some R_NilValue)),
      describeCols = (\<lambda>x. RCall None (Some x)),
      VECTOR_ELT = (\<lambda>x i. case x of
                     Value (Frame columns) \<Rightarrow>
                       if i < length columns then Value (Column (snd (columns ! i))) else NULL
                   | _ \<Rightarrow> NULL),
      STRING_ELT = (\<lambda>x i. case x of
                     Value (Column strings) \<Rightarrow>
                       if i < length strings then Value (CharSXP (strings ! i)) else Value NA
                   | _ \<Rightarrow> Value NA),
      NA_STRING = Value NA,
      sexp_length = (\<lambda>x. case x of Value (CharSXP text) \<Rightarrow> int (length text) | _ \<Rightarrow> 0),
      translateChar = (\<lambda>x. case x of Value (CharSXP text) \<Rightarrow> text | _ \<Rightarrow> []),
      viewerCacheDir = ''viewer-cache'',
      urlDecode = (\<lambda>text. text),
      parseQueryString = demo_parseQueryString,
      uninit_SEXP = NULL,
      uninit_ncol = 0,
      uninit_workingOrderCol = 0\<rparr>"

text \<open>Five rows in two columns, and a filtered view of it with three rows.\<close>

definition five_rows :: "rval SEXP" where
  "five_rows = Value (Frame [(''a'', [''1'', ''2'', ''3'', ''4'', ''5'']),
                             (''b'', [''v'', ''w'', ''x'', ''y'', ''z''])])"

definition three_rows :: "rval SEXP" where
  "three_rows = Value (Frame [(''a'', [''1'', ''2'', ''3'']),
                              (''b'', [''v'', ''w'', ''x''])])"

definition no_columns :: "rval SEXP" where
  "no_columns = Value (Frame [])"

text \<open>
  The session in which the object and the cached copy are \<open>original\<close> and the working
  data held for every key is \<open>working\<close>.
\<close>

definition servingHost :: "rval SEXP \<Rightarrow> rval SEXP \<Rightarrow> rval host" where
  "servingHost original working =
     demoHost\<lparr>findVar := (\<lambda>name env. original),
              findDataFrame := (\<lambda>env obj cacheKey cacheDir. RCall None (Some original)),
              findWorkingData := (\<lambda>cacheKey. RCall None (Some working))\<rparr>"

text \<open>A session whose column formatter rejects a negative length.\<close>

definition strictHost :: "rval host" where
  "strictHost =
     (servingHost five_rows R_NilValue)
       \<lparr>formatDataColumn := (\<lambda>x start len.
           if sint len < 0 then RCall (Some ''invalid length'') None
           else formatDataColumn demoHost x start len)\<rparr>"

text \<open>A frame as the constructor leaves it, and one that records a search for \<^verbatim>\<open>a\<close>.\<close>

definition freshFrame :: "rval SEXP \<Rightarrow> rval CachedFrame" where
  "freshFrame sexp = CachedFrame_new demoHost [] ''df'' sexp"


text \<open>The five rows with a third column, and with the same columns and other content.\<close>

definition with_third_column :: "rval SEXP" where
  "with_third_column = Value (Frame [(''a'', [''1'', ''2'', ''3'', ''4'', ''5'']),
                                     (''b'', [''v'', ''w'', ''x'', ''y'', ''z'']),
                                     (''c'', [''p'', ''q'', ''r'', ''s'', ''t''])])"

definition other_content :: "rval SEXP" where
  "other_content = Value (Frame [(''a'', [''6'', ''7'', ''8'', ''9'', ''0'']),
                                 (''b'', [''v'', ''w'', ''x'', ''y'', ''z''])])"

text \<open>
  Sessions in which one call fails: the column formatter; the transform, which reports an
  error and leaves \<^verbatim>\<open>R_NilValue\<close>; the lookup of the data frame, which stores nothing;
  and the row count, which stores nothing.
\<close>

definition formatFailHost :: "rval host" where
  "formatFailHost =
     (servingHost five_rows R_NilValue)
       \<lparr>formatDataColumn := (\<lambda>x start len. RCall (Some ''cannot format'') None)\<rparr>"

definition nullTransformHost :: "rval host" where
  "nullTransformHost =
     (servingHost five_rows R_NilValue)
       \<lparr>applyTransform := (\<lambda>x filtered search col dir.
           RCall (Some ''object not found'') (Some R_NilValue))\<rparr>"

definition lostCacheHost :: "rval host" where
  "lostCacheHost =
     demoHost\<lparr>findDataFrame := (\<lambda>env obj cacheKey cacheDir.
                 RCall (Some ''cannot read the cache'') None)\<rparr>"

definition noRowCountHost :: "rval host" where
  "noRowCountHost =
     (servingHost five_rows R_NilValue)\<lparr>nrow_R := (\<lambda>x. RCall (Some ''nrow failed'') None)\<rparr>"

text \<open>
  A frame that records an order by its second column, and the session of the five rows
  with a third column in which the int members that the constructor does not initialise
  hold \<open>junk\<close>.
\<close>

definition orderedFrame :: "rval CachedFrame" where
  "orderedFrame =
     (freshFrame five_rows)\<lparr>workingFilters := [[], []], workingOrderCol := 2,
                             workingOrderDir := ''desc''\<rparr>"

definition junkHost :: "int32 \<Rightarrow> rval host" where
  "junkHost junk =
     (servingHost with_third_column R_NilValue)
       \<lparr>uninit_ncol := junk, uninit_workingOrderCol := junk\<rparr>"

definition emptyResponse :: "rval Response" where
  "emptyResponse = \<lparr>statusCode = Ok, body = None\<rparr>"


section \<open>The words of the specification about filters\<close>

text \<open>
  These definitions say what the specification and the claims say, in terms of the
  characters of a string alone; none of them refers to the matcher above.
\<close>

definition decimal_digit :: "char \<Rightarrow> bool" where
  "decimal_digit c = (CHR ''0'' \<le> c \<and> c \<le> CHR ''9'')"

text \<open>
  A bound as the specification describes it, "optionally fractional": digits, optionally
  a dot, optionally more digits.
\<close>

definition number_text :: "string \<Rightarrow> bool" where
  "number_text t =
     (\<exists>a b c. t = a @ b @ c \<and> a \<noteq> [] \<and> list_all decimal_digit a \<and> (b = [] \<or> b = ''.'') \<and>
        list_all decimal_digit c)"

text \<open>
  "The string parses as a numeric range \<^verbatim>\<open><lower>-<upper>\<close>": it is a bound, a dash
  and a bound, and nothing else.
\<close>

definition parses_as_range :: "string \<Rightarrow> bool" where
  "parses_as_range s = (\<exists>lo hi. s = lo @ CHR ''-'' # hi \<and> number_text lo \<and> number_text hi)"

text \<open>The bounds of a string that is a range as a whole: the text before and after the dash.\<close>

definition range_bounds :: "string \<Rightarrow> string \<times> string" where
  "range_bounds s =
     (takeWhile (\<lambda>c. c \<noteq> CHR ''-'') s, tl (dropWhile (\<lambda>c. c \<noteq> CHR ''-'') s))"

text \<open>"The string contains, anywhere inside it, a substring that is a numeric range."\<close>

definition contains_range :: "string \<Rightarrow> bool" where
  "contains_range s = (\<exists>pre mid post. s = pre @ mid @ post \<and> parses_as_range mid)"

text \<open>
  "The first such matched pair of bounds": \<open>lo\<close> and \<open>hi\<close> are the bounds of a range
  that begins after \<open>pre\<close>; no range inside \<open>s\<close> begins further left; and no longer
  upper bound can be read at that place. At most one pair of bounds is the first range
  of a string (\<open>first_range_unique\<close> below).
\<close>

definition first_range :: "string \<Rightarrow> string \<Rightarrow> string \<Rightarrow> bool" where
  "first_range s lo hi =
     (\<exists>pre post. s = pre @ lo @ CHR ''-'' # hi @ post \<and> number_text lo \<and> number_text hi \<and>
        (\<forall>pre' mid post'. s = pre' @ mid @ post' \<and> parses_as_range mid \<longrightarrow>
           length pre \<le> length pre') \<and>
        (\<forall>hi' post'. hi @ post = hi' @ post' \<and> number_text hi' \<longrightarrow> length hi' \<le> length hi))"

text \<open>
  "Unparsable bound numbers treated as 0": the number a bound stands for, under a reader
  \<open>parse\<close> that may fail.
\<close>

definition bound_value :: "(string \<Rightarrow> 'n option) \<Rightarrow> string \<Rightarrow> 'n::zero" where
  "bound_value parse t = (case parse t of Some v \<Rightarrow> v | None \<Rightarrow> 0)"

text \<open>The prefix rule of the specification.\<close>

definition prefix_rule :: "string \<Rightarrow> string \<Rightarrow> bool" where
  "prefix_rule outer inner = (length inner \<ge> length outer \<and> take (length outer) inner = outer)"

text \<open>
  \<^verbatim>\<open>IsSubset\<close> as the specification words it: equal strings; else the bounds of two
  strings that both parse as ranges, each read with the default 0; else the prefix rule.
\<close>

definition IsSubset_spec ::
  "(string \<Rightarrow> 'n \<Rightarrow> 'n::{linorder,zero}) \<Rightarrow> string \<Rightarrow> string \<Rightarrow> bool" where
  "IsSubset_spec stringTo outer inner =
     (if outer = inner then True
      else if parses_as_range outer \<and> parses_as_range inner
      then stringTo (fst (range_bounds inner)) 0 \<ge> stringTo (fst (range_bounds outer)) 0 \<and>
           stringTo (snd (range_bounds inner)) 0 \<le> stringTo (snd (range_bounds outer)) 0
      else prefix_rule outer inner)"

chapter \<open>Properties\<close>

section \<open>The pattern matcher\<close>

lemma char_of_digit_codes: "char_of (48::nat) = CHR ''0''" "char_of (49::nat) = CHR ''1''" "char_of (50::nat) = CHR ''2''"
  "char_of (51::nat) = CHR ''3''" "char_of (52::nat) = CHR ''4''" "char_of (53::nat) = CHR ''5''"
  "char_of (54::nat) = CHR ''6''" "char_of (55::nat) = CHR ''7''" "char_of (56::nat) = CHR ''8''"
  "char_of (57::nat) = CHR ''9''"
  by code_simp+
lemma decimal_digit_cases:
  assumes "decimal_digit c"
  shows "c \<in> set ''0123456789''"
proof -
  define n where "n = (of_char c :: nat)"
  have b: "48 \<le> n" "n \<le> 57"
    using assms by (simp_all add: decimal_digit_def less_eq_char_def n_def)
  then have "n = 48 \<or> n = 49 \<or> n = 50 \<or> n = 51 \<or> n = 52 \<or> n = 53 \<or> n = 54 \<or> n = 55 \<or> n = 56 \<or> n = 57"
    by arith
  moreover have "c = char_of n" by (simp add: n_def)
  ultimately have "c = CHR ''0'' \<or> c = CHR ''1'' \<or> c = CHR ''2'' \<or> c = CHR ''3'' \<or> c = CHR ''4'' \<or>
     c = CHR ''5'' \<or> c = CHR ''6'' \<or> c = CHR ''7'' \<or> c = CHR ''8'' \<or> c = CHR ''9''"
    using char_of_digit_codes by blast
  then show ?thesis by auto
qed
lemma isdigit_iff: "isdigit c \<longleftrightarrow> decimal_digit c"
proof
  assume "isdigit c"
  then have "c = CHR ''0'' \<or> c = CHR ''1'' \<or> c = CHR ''2'' \<or> c = CHR ''3'' \<or> c = CHR ''4'' \<or>
     c = CHR ''5'' \<or> c = CHR ''6'' \<or> c = CHR ''7'' \<or> c = CHR ''8'' \<or> c = CHR ''9''"
    by (simp add: isdigit_def)
  moreover have "decimal_digit (CHR ''0'')" "decimal_digit (CHR ''1'')" "decimal_digit (CHR ''2'')"
    "decimal_digit (CHR ''3'')" "decimal_digit (CHR ''4'')" "decimal_digit (CHR ''5'')"
    "decimal_digit (CHR ''6'')" "decimal_digit (CHR ''7'')" "decimal_digit (CHR ''8'')"
    "decimal_digit (CHR ''9'')" by code_simp+
  ultimately show "decimal_digit c" by blast
next
  assume "decimal_digit c"
  then show "isdigit c" unfolding isdigit_def by (rule decimal_digit_cases)
qed

lemma list_all_isdigit: "list_all isdigit xs = list_all decimal_digit xs"
  by (simp add: list_all_iff isdigit_iff)

lemma number_text_isdigit:
  "number_text t \<longleftrightarrow>
     (\<exists>a b c. t = a @ b @ c \<and> a \<noteq> [] \<and> list_all isdigit a \<and> (b = [] \<or> b = ''.'') \<and>
        list_all isdigit c)"
  by (simp add: number_text_def list_all_isdigit)

lemma cons_image_mem:
  "(t, r) \<in> (\<lambda>(t, r). (c # t, r)) ` A \<longleftrightarrow> (\<exists>t'. t = c # t' \<and> (t', r) \<in> A)"
proof
  assume "(t, r) \<in> (\<lambda>(t, r). (c # t, r)) ` A"
  then show "\<exists>t'. t = c # t' \<and> (t', r) \<in> A" by auto
next
  assume "\<exists>t'. t = c # t' \<and> (t', r) \<in> A"
  then obtain t' where t': "t = c # t'" "(t', r) \<in> A" by blast
  then have "(t, r) = (\<lambda>(t, r). (c # t, r)) (t', r)" by simp
  then show "(t, r) \<in> (\<lambda>(t, r). (c # t, r)) ` A" using t'(2) by (rule image_eqI)
qed

lemma digits_star_set:
  "(t, r) \<in> set (digits_star s) \<longleftrightarrow> s = t @ r \<and> list_all isdigit t"
proof (induction s arbitrary: t)
  case Nil
  then show ?case by auto
next
  case (Cons c cs)
  show ?case
  proof (cases t)
    case Nil
    then show ?thesis by (auto simp: cons_image_mem)
  next
    case (Cons x t')
    then show ?thesis by (auto simp: cons_image_mem Cons.IH)
  qed
qed

lemma digits_plus_set:
  "(t, r) \<in> set (digits_plus s) \<longleftrightarrow> s = t @ r \<and> t \<noteq> [] \<and> list_all isdigit t"
  by (auto simp: digits_plus_def digits_star_set)

lemma opt_dot_set:
  "(b, r) \<in> set (opt_dot s) \<longleftrightarrow> s = b @ r \<and> (b = [] \<or> b = ''.'')"
  by (cases s) auto

lemma in_map: "x \<in> set xs \<Longrightarrow> f x \<in> set (map f xs)"
  by simp

lemma in_concat_map:
  "x \<in> set xs \<Longrightarrow> y \<in> set (f x) \<Longrightarrow> y \<in> set (concat (map f xs))"
  by auto

lemma bound_intro:
  assumes "(a, r1) \<in> set (digits_plus s)" "(b, r2) \<in> set (opt_dot r1)"
    "(c, r) \<in> set (digits_star r2)"
  shows "(a @ b @ c, r) \<in> set (bound s)"
proof -
  have "(\<lambda>(c, r3). (a @ b @ c, r3)) (c, r) \<in>
          set (map (\<lambda>(c, r3). (a @ b @ c, r3)) (digits_star r2))"
    using assms(3) by (rule in_map)
  then have 1: "(a @ b @ c, r) \<in> set (map (\<lambda>(c, r3). (a @ b @ c, r3)) (digits_star r2))"
    by simp
  have 2: "(a @ b @ c, r) \<in> set (concat (map (\<lambda>(b, r2).
              map (\<lambda>(c, r3). (a @ b @ c, r3)) (digits_star r2)) (opt_dot r1)))"
    by (rule in_concat_map [where x = "(b, r2)"]) (use assms(2) 1 in simp_all)
  show ?thesis
    unfolding bound_def
    by (rule in_concat_map [where x = "(a, r1)"]) (use assms(1) 2 in simp_all)
qed

lemma bound_elim:
  "(t, r) \<in> set (bound s) \<Longrightarrow>
   \<exists>a r1 b r2 c. (a, r1) \<in> set (digits_plus s) \<and> (b, r2) \<in> set (opt_dot r1) \<and>
     (c, r) \<in> set (digits_star r2) \<and> t = a @ b @ c"
  unfolding bound_def by auto blast

lemma bound_set:
  "(t, r) \<in> set (bound s) \<longleftrightarrow> s = t @ r \<and> number_text t"
proof
  assume "(t, r) \<in> set (bound s)"
  from bound_elim [OF this] obtain a r1 b r2 c where
    "(a, r1) \<in> set (digits_plus s)" "(b, r2) \<in> set (opt_dot r1)"
    "(c, r) \<in> set (digits_star r2)" "t = a @ b @ c" by blast
  then have "s = t @ r" "a \<noteq> []" "list_all isdigit a" "b = [] \<or> b = ''.''" "list_all isdigit c"
    "t = a @ b @ c"
    by (simp_all add: digits_plus_set opt_dot_set digits_star_set)
  then show "s = t @ r \<and> number_text t"
    unfolding number_text_isdigit by blast
next
  assume "s = t @ r \<and> number_text t"
  then obtain a b c where h: "s = t @ r" "t = a @ b @ c" "a \<noteq> []" "list_all isdigit a"
    "b = [] \<or> b = ''.''" "list_all isdigit c"
    unfolding number_text_isdigit by blast
  have "(a, b @ c @ r) \<in> set (digits_plus s)" using h by (simp add: digits_plus_set)
  moreover have "(b, c @ r) \<in> set (opt_dot (b @ c @ r))" using h by (simp add: opt_dot_set)
  moreover have "(c, r) \<in> set (digits_star (c @ r))" using h by (simp add: digits_star_set)
  ultimately have "(a @ b @ c, r) \<in> set (bound s)" by (rule bound_intro)
  then show "(t, r) \<in> set (bound s)" using h by simp
qed

lemma dash_set: "r2 \<in> set (dash r1) \<longleftrightarrow> r1 = CHR ''-'' # r2"
  by (cases r1) auto

lemma numFilter_intro:
  assumes "(g1, r1) \<in> set (bound s)" "r2 \<in> set (dash r1)" "(g2, r) \<in> set (bound r2)"
  shows "(g1, g2, r) \<in> set (numFilter s)"
proof -
  have "(\<lambda>(g2, r3). (g1, g2, r3)) (g2, r) \<in> set (map (\<lambda>(g2, r3). (g1, g2, r3)) (bound r2))"
    using assms(3) by (rule in_map)
  then have 1: "(g1, g2, r) \<in> set (map (\<lambda>(g2, r3). (g1, g2, r3)) (bound r2))"
    by simp
  have 2: "(g1, g2, r) \<in> set (concat (map (\<lambda>r2.
              map (\<lambda>(g2, r3). (g1, g2, r3)) (bound r2)) (dash r1)))"
    by (rule in_concat_map [where x = r2]) (use assms(2) 1 in simp_all)
  show ?thesis
    unfolding numFilter_def
    by (rule in_concat_map [where x = "(g1, r1)"]) (use assms(1) 2 in simp_all)
qed

lemma numFilter_elim:
  "(g1, g2, r) \<in> set (numFilter s) \<Longrightarrow>
   \<exists>r1 r2. (g1, r1) \<in> set (bound s) \<and> r2 \<in> set (dash r1) \<and> (g2, r) \<in> set (bound r2)"
  unfolding numFilter_def by auto

lemma numFilter_set:
  "(g1, g2, r) \<in> set (numFilter s) \<longleftrightarrow>
     s = g1 @ CHR ''-'' # g2 @ r \<and> number_text g1 \<and> number_text g2"
proof
  assume "(g1, g2, r) \<in> set (numFilter s)"
  from numFilter_elim [OF this] obtain r1 r2 where
    "(g1, r1) \<in> set (bound s)" "r2 \<in> set (dash r1)" "(g2, r) \<in> set (bound r2)" by blast
  then show "s = g1 @ CHR ''-'' # g2 @ r \<and> number_text g1 \<and> number_text g2"
    by (simp add: bound_set dash_set)
next
  assume h: "s = g1 @ CHR ''-'' # g2 @ r \<and> number_text g1 \<and> number_text g2"
  have "(g1, CHR ''-'' # g2 @ r) \<in> set (bound s)" using h by (simp add: bound_set)
  moreover have "g2 @ r \<in> set (dash (CHR ''-'' # g2 @ r))" by (simp add: dash_set)
  moreover have "(g2, r) \<in> set (bound (g2 @ r))" using h by (simp add: bound_set)
  ultimately show "(g1, g2, r) \<in> set (numFilter s)" by (rule numFilter_intro)
qed

lemma parses_as_range_iff:
  "parses_as_range s \<longleftrightarrow>
     (\<exists>g1 g2. s = g1 @ CHR ''-'' # g2 \<and> number_text g1 \<and> number_text g2)"
  by (simp add: parses_as_range_def)

lemma parses_as_range_numFilter:
  "parses_as_range s \<longleftrightarrow> (\<exists>g1 g2. (g1, g2, []) \<in> set (numFilter s))"
  by (simp add: parses_as_range_def numFilter_set)

lemma numFilter_nonempty_iff:
  "numFilter t \<noteq> [] \<longleftrightarrow> (\<exists>p r. t = p @ r \<and> parses_as_range p)"
proof
  assume "numFilter t \<noteq> []"
  then obtain g1 g2 r where "(g1, g2, r) \<in> set (numFilter t)"
    by (cases "numFilter t") auto
  then have "t = (g1 @ CHR ''-'' # g2) @ r" "parses_as_range (g1 @ CHR ''-'' # g2)"
    by (auto simp: numFilter_set parses_as_range_iff)
  then show "\<exists>p r. t = p @ r \<and> parses_as_range p" by blast
next
  assume "\<exists>p r. t = p @ r \<and> parses_as_range p"
  then obtain g1 g2 r where "t = g1 @ CHR ''-'' # g2 @ r" "number_text g1" "number_text g2"
    by (auto simp: parses_as_range_iff)
  then have "(g1, g2, r) \<in> set (numFilter t)" by (simp add: numFilter_set)
  then show "numFilter t \<noteq> []" by auto
qed

lemma regex_search_None_iff:
  "regex_search s = None \<longleftrightarrow> (\<forall>t\<in>set (suffixes s). numFilter t = [])"
proof (induction s)
  case Nil
  show ?case by (simp add: numFilter_def bound_def digits_plus_def)
next
  case (Cons c cs)
  show ?case
    by (cases "numFilter (c # cs)") (auto simp: Cons.IH)
qed

lemma numFilter_nonempty_prefix:
  "numFilter t \<noteq> [] \<longleftrightarrow> (\<exists>p. prefix p t \<and> parses_as_range p)"
  unfolding numFilter_nonempty_iff prefix_def by blast

lemma contains_range_suffix:
  "contains_range s \<longleftrightarrow> (\<exists>t. suffix t s \<and> numFilter t \<noteq> [])"
proof
  assume "contains_range s"
  then obtain pre mid post where h: "s = pre @ mid @ post" "parses_as_range mid"
    unfolding contains_range_def by blast
  then have "suffix (mid @ post) s" "prefix mid (mid @ post)"
    by (simp_all add: suffix_def)
  with h(2) show "\<exists>t. suffix t s \<and> numFilter t \<noteq> []"
    unfolding numFilter_nonempty_prefix by blast
next
  assume "\<exists>t. suffix t s \<and> numFilter t \<noteq> []"
  then obtain t p where "suffix t s" "prefix p t" "parses_as_range p"
    unfolding numFilter_nonempty_prefix by blast
  then obtain pre post where "s = pre @ t" "t = p @ post"
    unfolding suffix_def prefix_def by blast
  with \<open>parses_as_range p\<close> have "s = pre @ p @ post \<and> parses_as_range p" by simp
  then show "contains_range s" unfolding contains_range_def by blast
qed

lemma contains_range_iff_search:
  "contains_range s \<longleftrightarrow> regex_search s \<noteq> None"
  unfolding contains_range_suffix regex_search_None_iff Ball_def
  by (simp add: in_set_suffixes)

lemma regex_search_Some:
  "regex_search s = Some (lo, hi) \<Longrightarrow>
     \<exists>pre post. s = pre @ lo @ CHR ''-'' # hi @ post \<and> number_text lo \<and> number_text hi \<and>
       (\<forall>k<length pre. numFilter (drop k s) = [])"
proof (induction s)
  case Nil
  then show ?case by simp
next
  case (Cons c cs)
  show ?case
  proof (cases "numFilter (c # cs)")
    case Nil
    with Cons.prems have "regex_search cs = Some (lo, hi)" by simp
    from Cons.IH [OF this] obtain pre post where
      h: "cs = pre @ lo @ CHR ''-'' # hi @ post" "number_text lo" "number_text hi"
         "\<forall>k<length pre. numFilter (drop k cs) = []" by blast
    have "\<forall>k<length (c # pre). numFilter (drop k (c # cs)) = []"
    proof (intro allI impI)
      fix k assume "k < length (c # pre)"
      then show "numFilter (drop k (c # cs)) = []"
        using Nil h(4) by (cases k) auto
    qed
    with h(1-3) have "c # cs = (c # pre) @ lo @ CHR ''-'' # hi @ post \<and> number_text lo \<and>
       number_text hi \<and> (\<forall>k<length (c # pre). numFilter (drop k (c # cs)) = [])" by simp
    then show ?thesis by blast
  next
    case (Cons m ms)
    obtain g1 g2 r where m: "m = (g1, g2, r)" by (cases m) auto
    with Cons Cons.prems have "g1 = lo" "g2 = hi" by auto
    moreover have "(g1, g2, r) \<in> set (numFilter (c # cs))" using Cons m by simp
    ultimately have "c # cs = [] @ lo @ CHR ''-'' # hi @ r \<and> number_text lo \<and> number_text hi \<and>
       (\<forall>k<length ([]::string). numFilter (drop k (c # cs)) = [])"
      by (simp add: numFilter_set)
    then show ?thesis by blast
  qed
qed

lemma digits_star_hd:
  "\<exists>rest. digits_star s = (takeWhile isdigit s, dropWhile isdigit s) # rest"
proof (induction s)
  case Nil
  show ?case by simp
next
  case (Cons c cs)
  then obtain rest where "digits_star cs = (takeWhile isdigit cs, dropWhile isdigit cs) # rest"
    by blast
  then show ?case by simp
qed

lemma bound_greedy_digits:
  assumes "t \<noteq> []" "list_all isdigit t"
  shows "\<exists>rest. bound t = (t, []) # rest"
proof -
  have tw: "takeWhile isdigit t = t" "dropWhile isdigit t = []"
    using assms(2) by (simp_all add: list_all_iff)
  obtain rest where "digits_star t = (t, []) # rest"
    using digits_star_hd [of t] tw by auto
  then show ?thesis
    using assms(1) by (simp add: bound_def digits_plus_def)
qed

lemma bound_greedy_dot:
  assumes "a \<noteq> []" "list_all isdigit a" "list_all isdigit c"
  shows "\<exists>rest. bound (a @ CHR ''.'' # c) = (a @ CHR ''.'' # c, []) # rest"
proof -
  have nd: "\<not> isdigit (CHR ''.'')" by (simp add: isdigit_def)
  have "takeWhile isdigit (a @ CHR ''.'' # c) = a" "dropWhile isdigit (a @ CHR ''.'' # c) = CHR ''.'' # c"
    using assms(2) nd by (simp_all add: list_all_iff takeWhile_append2 dropWhile_append2)
  then obtain rest where 1: "digits_star (a @ CHR ''.'' # c) = (a, CHR ''.'' # c) # rest"
    using digits_star_hd [of "a @ CHR ''.'' # c"] by auto
  have "takeWhile isdigit c = c" "dropWhile isdigit c = []"
    using assms(3) by (simp_all add: list_all_iff)
  then obtain rest2 where 2: "digits_star c = (c, []) # rest2"
    using digits_star_hd [of c] by auto
  show ?thesis
    using assms(1) 1 2 by (simp add: bound_def digits_plus_def)
qed

lemma bound_greedy:
  assumes "number_text t"
  shows "\<exists>rest. bound t = (t, []) # rest"
proof -
  from assms obtain a b c where h: "t = a @ b @ c" "a \<noteq> []" "list_all isdigit a"
    "b = [] \<or> b = ''.''" "list_all isdigit c"
    unfolding number_text_isdigit by blast
  show ?thesis
  proof (cases "b = []")
    case True
    with h have "t \<noteq> []" "list_all isdigit t" by simp_all
    then show ?thesis by (rule bound_greedy_digits)
  next
    case False
    with h have "t = a @ CHR ''.'' # c" by auto
    with bound_greedy_dot [OF h(2,3,5)] show ?thesis by simp
  qed
qed

lemma isdigit_dash: "\<not> isdigit (CHR ''-'')"
  by (simp add: isdigit_def)

lemma number_text_no_dash:
  assumes "number_text t"
  shows "CHR ''-'' \<notin> set t"
proof -
  from assms obtain a b c where h: "t = a @ b @ c" "list_all isdigit a"
    "b = [] \<or> b = ''.''" "list_all isdigit c"
    unfolding number_text_isdigit by blast
  have "CHR ''-'' \<notin> set a" "CHR ''-'' \<notin> set c"
    using h(2,4) isdigit_dash unfolding list_all_iff by blast+
  moreover have "CHR ''-'' \<notin> set b" using h(3) by auto
  ultimately show ?thesis using h(1) by simp
qed

lemma dash_split_unique:
  "CHR ''-'' \<notin> set x \<Longrightarrow> CHR ''-'' \<notin> set y \<Longrightarrow> x @ CHR ''-'' # r = y @ CHR ''-'' # r' \<Longrightarrow>
   x = y \<and> r = r'"
proof (induction x arbitrary: y)
  case Nil
  then show ?case by (cases y) auto
next
  case (Cons c cs)
  then show ?case by (cases y) auto
qed

lemma concat_map_hd:
  assumes "x0 \<in> set xs" "f x0 = y # ys" "\<forall>x\<in>set xs. f x = [] \<or> f x = f x0"
  shows "\<exists>rest. concat (map f xs) = y # rest"
  using assms
proof (induction xs)
  case Nil
  then show ?case by simp
next
  case (Cons x xs)
  show ?case
  proof (cases "f x = []")
    case True
    with Cons.prems have "x0 \<in> set xs" by auto
    with Cons.IH Cons.prems True show ?thesis by simp
  next
    case False
    with Cons.prems have "f x = y # ys" by auto
    then show ?thesis by simp
  qed
qed

lemma numFilter_greedy:
  assumes "number_text g1" "number_text g2"
  shows "\<exists>rest. numFilter (g1 @ CHR ''-'' # g2) = (g1, g2, []) # rest"
proof -
  let ?s = "g1 @ CHR ''-'' # g2"
  let ?F = "\<lambda>(g1, r1). concat (map (\<lambda>r2. map (\<lambda>(g2, r3). (g1, g2, r3)) (bound r2)) (dash r1))"
  obtain rest2 where b2: "bound g2 = (g2, []) # rest2"
    using bound_greedy [OF assms(2)] by blast
  have mem: "(g1, CHR ''-'' # g2) \<in> set (bound ?s)"
    using assms(1) by (simp add: bound_set)
  have F0: "?F (g1, CHR ''-'' # g2) = (g1, g2, []) # map (\<lambda>(g2, r3). (g1, g2, r3)) rest2"
    using b2 by simp
  have other: "\<forall>x\<in>set (bound ?s). ?F x = [] \<or> ?F x = ?F (g1, CHR ''-'' # g2)"
  proof
    fix x assume x: "x \<in> set (bound ?s)"
    obtain h r1 where xe: "x = (h, r1)" by (cases x) auto
    with x have hs: "?s = h @ r1" "number_text h" by (simp_all add: bound_set)
    show "?F x = [] \<or> ?F x = ?F (g1, CHR ''-'' # g2)"
    proof (cases "dash r1")
      case Nil
      then show ?thesis using xe by simp
    next
      case (Cons r2 rs)
      then have "r1 = CHR ''-'' # r2" by (cases r1) (auto split: if_splits)
      with hs have "h = g1 \<and> r2 = g2"
        using dash_split_unique [of h g1 r2 g2] number_text_no_dash assms(1) by auto
      then show ?thesis using xe \<open>r1 = CHR ''-'' # r2\<close> by simp
    qed
  qed
  from concat_map_hd [of "(g1, CHR ''-'' # g2)" "bound ?s" ?F, OF mem F0 other]
  show ?thesis unfolding numFilter_def by simp
qed

lemma range_bounds_whole:
  "CHR ''-'' \<notin> set g1 \<Longrightarrow> range_bounds (g1 @ CHR ''-'' # g2) = (g1, g2)"
  by (induction g1) (auto simp: range_bounds_def)

lemma regex_search_whole:
  assumes "parses_as_range s"
  shows "regex_search s = Some (range_bounds s)"
proof -
  from assms obtain g1 g2 where h: "s = g1 @ CHR ''-'' # g2" "number_text g1" "number_text g2"
    by (auto simp: parses_as_range_iff)
  obtain rest where nf: "numFilter s = (g1, g2, []) # rest"
    using numFilter_greedy [OF h(2,3)] h(1) by blast
  have "s \<noteq> []" using h(1) by simp
  then obtain c cs where "s = c # cs" by (cases s) auto
  then have "regex_search s = Some (g1, g2)" using nf by simp
  then show ?thesis
    using h(1) range_bounds_whole [OF number_text_no_dash [OF h(2)]] by simp
qed


subsection \<open>The specification's predicates, computed\<close>

lemma takeWhile_all: "list_all P xs \<Longrightarrow> takeWhile P (xs @ ys) = xs @ takeWhile P ys"
  by (induction xs) auto

lemma dropWhile_all: "list_all P xs \<Longrightarrow> dropWhile P (xs @ ys) = dropWhile P ys"
  by (induction xs) auto

lemma list_all_takeWhile: "list_all P (takeWhile P xs)"
  by (induction xs) auto

lemma not_digit_dot: "\<not> decimal_digit (CHR ''.'')"
  by code_simp

lemma number_text_code [code]:
  "number_text t =
     (let a = takeWhile decimal_digit t; r = dropWhile decimal_digit t
      in a \<noteq> [] \<and> (r = [] \<or> (hd r = CHR ''.'' \<and> list_all decimal_digit (tl r))))"
proof
  assume "number_text t"
  then obtain a b c where h: "t = a @ b @ c" "a \<noteq> []" "list_all decimal_digit a"
    "b = [] \<or> b = ''.''" "list_all decimal_digit c"
    unfolding number_text_def by blast
  show "let a = takeWhile decimal_digit t; r = dropWhile decimal_digit t
      in a \<noteq> [] \<and> (r = [] \<or> (hd r = CHR ''.'' \<and> list_all decimal_digit (tl r)))"
  proof (cases "b = []")
    case True
    then have "list_all decimal_digit t" using h by simp
    then have "takeWhile decimal_digit t = t" "dropWhile decimal_digit t = []"
      using takeWhile_all [of decimal_digit t "[]"] dropWhile_all [of decimal_digit t "[]"]
      by simp_all
    then show ?thesis using h True by simp
  next
    case False
    then have t: "t = a @ CHR ''.'' # c" using h by auto
    have "takeWhile decimal_digit t = a" "dropWhile decimal_digit t = CHR ''.'' # c"
      using takeWhile_all [OF h(3), of "CHR ''.'' # c"] dropWhile_all [OF h(3), of "CHR ''.'' # c"]
        not_digit_dot t by simp_all
    then show ?thesis using h by simp
  qed
next
  assume r: "let a = takeWhile decimal_digit t; r = dropWhile decimal_digit t
      in a \<noteq> [] \<and> (r = [] \<or> (hd r = CHR ''.'' \<and> list_all decimal_digit (tl r)))"
  let ?a = "takeWhile decimal_digit t"
  let ?r = "dropWhile decimal_digit t"
  have a: "?a \<noteq> []" using r unfolding Let_def by blast
  have a2: "list_all decimal_digit ?a" by (rule list_all_takeWhile)
  have r2: "?r = [] \<or> (hd ?r = CHR ''.'' \<and> list_all decimal_digit (tl ?r))"
    using r unfolding Let_def by blast
  show "number_text t"
  proof (cases "?r = []")
    case True
    then have "t = ?a @ [] @ []"
      using takeWhile_dropWhile_id [of decimal_digit t] by (metis append_Nil2)
    moreover have "list_all decimal_digit []" by simp
    ultimately show ?thesis unfolding number_text_def using a a2 by blast
  next
    case False
    with r2 have "hd ?r = CHR ''.''" "list_all decimal_digit (tl ?r)" by blast+
    moreover from False have "?r = hd ?r # tl ?r" by simp
    ultimately have "t = ?a @ ''.'' @ tl ?r"
      using takeWhile_dropWhile_id [of decimal_digit t] by (metis append_Cons append_Nil)
    then show ?thesis
      unfolding number_text_def using a a2 \<open>list_all decimal_digit (tl ?r)\<close> by blast
  qed
qed

lemma parses_as_range_code [code]:
  "parses_as_range s =
     (let lo = takeWhile (\<lambda>c. c \<noteq> CHR ''-'') s; rest = dropWhile (\<lambda>c. c \<noteq> CHR ''-'') s
      in rest \<noteq> [] \<and> number_text lo \<and> number_text (tl rest))"
proof
  assume "parses_as_range s"
  then obtain lo hi where h: "s = lo @ CHR ''-'' # hi" "number_text lo" "number_text hi"
    unfolding parses_as_range_def by blast
  have nd: "list_all (\<lambda>c. c \<noteq> CHR ''-'') lo"
    using number_text_no_dash [OF h(2)] by (auto simp: list_all_iff)
  have "takeWhile (\<lambda>c. c \<noteq> CHR ''-'') s = lo" "dropWhile (\<lambda>c. c \<noteq> CHR ''-'') s = CHR ''-'' # hi"
    using takeWhile_all [OF nd, of "CHR ''-'' # hi"] dropWhile_all [OF nd, of "CHR ''-'' # hi"] h(1)
    by simp_all
  then show "let lo = takeWhile (\<lambda>c. c \<noteq> CHR ''-'') s; rest = dropWhile (\<lambda>c. c \<noteq> CHR ''-'') s
      in rest \<noteq> [] \<and> number_text lo \<and> number_text (tl rest)"
    using h by simp
next
  let ?lo = "takeWhile (\<lambda>c. c \<noteq> CHR ''-'') s"
  let ?rest = "dropWhile (\<lambda>c. c \<noteq> CHR ''-'') s"
  assume "let lo = takeWhile (\<lambda>c. c \<noteq> CHR ''-'') s; rest = dropWhile (\<lambda>c. c \<noteq> CHR ''-'') s
      in rest \<noteq> [] \<and> number_text lo \<and> number_text (tl rest)"
  then have r: "?rest \<noteq> []" "number_text ?lo" "number_text (tl ?rest)"
    unfolding Let_def by blast+
  have "hd ?rest = CHR ''-''" using r(1) hd_dropWhile [of "\<lambda>c. c \<noteq> CHR ''-''" s] by simp
  with r(1) have "?rest = CHR ''-'' # tl ?rest" by (metis list.collapse)
  then have "s = ?lo @ CHR ''-'' # tl ?rest"
    using takeWhile_dropWhile_id [of "\<lambda>c. c \<noteq> CHR ''-''" s] by simp
  with r(2,3) show "parses_as_range s" unfolding parses_as_range_def by blast
qed

lemma contains_range_code [code]:
  "contains_range s = list_ex (\<lambda>t. list_ex parses_as_range (prefixes t)) (suffixes s)"
proof -
  have "list_ex (\<lambda>t. list_ex parses_as_range (prefixes t)) (suffixes s) \<longleftrightarrow>
          (\<exists>t. suffix t s \<and> (\<exists>p. prefix p t \<and> parses_as_range p))"
    unfolding list_ex_iff Bex_def by (simp add: in_set_prefixes in_set_suffixes)
  then show ?thesis
    unfolding contains_range_suffix numFilter_nonempty_prefix by simp
qed

subsection \<open>The match that is reported is the first range of the string\<close>

lemma concat_map_hd_from:
  "concat (map f xs) = y # ys \<Longrightarrow> \<exists>x\<in>set xs. \<exists>zs. f x = y # zs"
proof (induction xs)
  case Nil
  then show ?case by simp
next
  case (Cons x xs)
  show ?case
  proof (cases "f x")
    case Nil
    with Cons show ?thesis by simp
  next
    case (Cons z zs)
    with Cons.prems have "f x = y # zs" by simp
    then show ?thesis by auto
  qed
qed

lemma numFilter_hd:
  assumes "numFilter t = (g1, g2, r) # rest"
  shows "\<exists>r0. bound (g2 @ r) = (g2, r) # r0"
proof -
  let ?F = "\<lambda>(g1, r1). concat (map (\<lambda>r2. map (\<lambda>(g2, r3). (g1, g2, r3)) (bound r2)) (dash r1))"
  from assms have "concat (map ?F (bound t)) = (g1, g2, r) # rest"
    by (simp add: numFilter_def)
  from concat_map_hd_from [OF this] obtain x zs where
    x: "x \<in> set (bound t)" "?F x = (g1, g2, r) # zs" by blast
  obtain h r1 where xe: "x = (h, r1)" by (cases x) auto
  from x(2) xe have "dash r1 \<noteq> []" by auto
  then obtain r2 where r2: "r1 = CHR ''-'' # r2"
    by (cases r1) (auto split: if_splits)
  with x(2) xe have m: "map (\<lambda>(g2, r3). (h, g2, r3)) (bound r2) = (g1, g2, r) # zs" by simp
  then obtain b r0 where b: "bound r2 = b # r0" by (cases "bound r2") auto
  with m have "b = (g2, r)" by (cases b) auto
  with b have bb: "bound r2 = (g2, r) # r0" by simp
  then have "(g2, r) \<in> set (bound r2)" by simp
  then have "r2 = g2 @ r" by (simp add: bound_set)
  with bb show ?thesis by auto
qed

lemma bound_hd_explicit:
  assumes "takeWhile isdigit x \<noteq> []"
  shows "\<exists>B C R3 rest. bound x = (takeWhile isdigit x @ B @ C, R3) # rest \<and>
           (\<forall>cs. dropWhile isdigit x = CHR ''.'' # cs \<longrightarrow> B = ''.'' \<and> C = takeWhile isdigit cs)"
proof -
  define A where "A = takeWhile isdigit x"
  define R where "R = dropWhile isdigit x"
  obtain rs where ds: "digits_star x = (A, R) # rs"
    using digits_star_hd [of x] unfolding A_def R_def by blast
  have ne: "A \<noteq> []" using assms unfolding A_def .
  have dp: "digits_plus x = (A, R) # filter (\<lambda>(t, r). t \<noteq> []) rs"
    using ds ne by (simp add: digits_plus_def)
  have "\<exists>B C R3 rest. bound x = (A @ B @ C, R3) # rest \<and>
           (\<forall>cs. R = CHR ''.'' # cs \<longrightarrow> B = ''.'' \<and> C = takeWhile isdigit cs)"
  proof (cases R)
    case Nil
    have "bound x = (A @ [] @ [], []) # concat (map (\<lambda>(a, r1).
       concat (map (\<lambda>(b, r2).
         map (\<lambda>(c, r3). (a @ b @ c, r3)) (digits_star r2)) (opt_dot r1))) (filter (\<lambda>(t, r). t \<noteq> []) rs))"
      unfolding bound_def dp Nil by simp
    then show ?thesis using Nil by blast
  next
    case (Cons c cs)
    show ?thesis
    proof (cases "c = CHR ''.''")
      case True
      obtain rs2 where d2: "digits_star cs = (takeWhile isdigit cs, dropWhile isdigit cs) # rs2"
        using digits_star_hd [of cs] by blast
      have "\<exists>rest. bound x = (A @ ''.'' @ takeWhile isdigit cs, dropWhile isdigit cs) # rest"
        unfolding bound_def dp Cons True by (simp add: d2)
      then show ?thesis using Cons True by blast
    next
      case False
      obtain rs2 where d2: "digits_star (c # cs) =
          (takeWhile isdigit (c # cs), dropWhile isdigit (c # cs)) # rs2"
        using digits_star_hd [of "c # cs"] by blast
      have "\<exists>rest. bound x = (A @ [] @ takeWhile isdigit (c # cs), dropWhile isdigit (c # cs)) # rest"
        unfolding bound_def dp Cons using False d2 by simp
      then show ?thesis using Cons False by blast
    qed
  qed
  then show ?thesis unfolding A_def R_def .
qed

lemma not_isdigit_dot: "\<not> isdigit (CHR ''.'')"
  by (simp add: isdigit_iff not_digit_dot)

lemma bound_hd_longest:
  assumes "bound x = (t, r) # rest" "x = t' @ r'" "number_text t'"
  shows "length t' \<le> length t"
proof -
  from assms(3) obtain a b c where h: "t' = a @ b @ c" "a \<noteq> []" "list_all isdigit a"
    "b = [] \<or> b = ''.''" "list_all isdigit c"
    unfolding number_text_isdigit by blast
  have A: "takeWhile isdigit x = a @ takeWhile isdigit (b @ c @ r')"
    using takeWhile_all [OF h(3), of "b @ c @ r'"] assms(2) h(1) by simp
  with h(2) have ne: "takeWhile isdigit x \<noteq> []" by simp
  from bound_hd_explicit [OF ne] assms(1) obtain B C where
    t: "t = takeWhile isdigit x @ B @ C"
    and dot: "\<forall>cs. dropWhile isdigit x = CHR ''.'' # cs \<longrightarrow> B = ''.'' \<and> C = takeWhile isdigit cs"
    by auto
  show ?thesis
  proof (cases "b = []")
    case True
    then have "takeWhile isdigit x = a @ c @ takeWhile isdigit r'"
      using A takeWhile_all [OF h(5), of r'] by simp
    then show ?thesis using t h(1) True by simp
  next
    case False
    then have b: "b = ''.''" using h(4) by simp
    have "takeWhile isdigit x = a" using A b not_isdigit_dot by simp
    moreover have "dropWhile isdigit x = CHR ''.'' # c @ r'"
      using dropWhile_all [OF h(3), of "b @ c @ r'"] assms(2) h(1) b not_isdigit_dot by simp
    moreover have "takeWhile isdigit (c @ r') = c @ takeWhile isdigit r'"
      using takeWhile_all [OF h(5)] by simp
    ultimately have "t = a @ ''.'' @ c @ takeWhile isdigit r'" using t dot by simp
    then show ?thesis using h(1) b by simp
  qed
qed

lemma regex_search_Some_greedy:
  "regex_search s = Some (lo, hi) \<Longrightarrow>
     \<exists>pre post. s = pre @ lo @ CHR ''-'' # hi @ post \<and> number_text lo \<and> number_text hi \<and>
       (\<forall>k<length pre. numFilter (drop k s) = []) \<and>
       (\<exists>r0. bound (hi @ post) = (hi, post) # r0)"
proof (induction s)
  case Nil
  then show ?case by simp
next
  case (Cons c cs)
  show ?case
  proof (cases "numFilter (c # cs)")
    case Nil
    with Cons.prems have "regex_search cs = Some (lo, hi)" by simp
    from Cons.IH [OF this] obtain pre post where
      h: "cs = pre @ lo @ CHR ''-'' # hi @ post" "number_text lo" "number_text hi"
         "\<forall>k<length pre. numFilter (drop k cs) = []"
         "\<exists>r0. bound (hi @ post) = (hi, post) # r0" by blast
    have "\<forall>k<length (c # pre). numFilter (drop k (c # cs)) = []"
    proof (intro allI impI)
      fix k assume "k < length (c # pre)"
      then show "numFilter (drop k (c # cs)) = []"
        using Nil h(4) by (cases k) auto
    qed
    with h(1-3,5) have "c # cs = (c # pre) @ lo @ CHR ''-'' # hi @ post \<and> number_text lo \<and>
       number_text hi \<and> (\<forall>k<length (c # pre). numFilter (drop k (c # cs)) = []) \<and>
       (\<exists>r0. bound (hi @ post) = (hi, post) # r0)" by simp
    then show ?thesis by blast
  next
    case (Cons m ms)
    obtain g1 g2 r where m: "m = (g1, g2, r)" by (cases m) auto
    with Cons Cons.prems have g: "g1 = lo" "g2 = hi" by auto
    have nf: "numFilter (c # cs) = (lo, hi, r) # ms" using Cons m g by simp
    then have "(lo, hi, r) \<in> set (numFilter (c # cs))" by simp
    then have "c # cs = [] @ lo @ CHR ''-'' # hi @ r \<and> number_text lo \<and> number_text hi \<and>
       (\<forall>k<length ([]::string). numFilter (drop k (c # cs)) = [])"
      by (simp add: numFilter_set)
    moreover have "\<exists>r0. bound (hi @ r) = (hi, r) # r0" using numFilter_hd [OF nf] .
    ultimately show ?thesis by blast
  qed
qed

lemma regex_search_first_range:
  assumes "regex_search s = Some (lo, hi)"
  shows "first_range s lo hi"
proof -
  from regex_search_Some_greedy [OF assms] obtain pre post r0 where
    h: "s = pre @ lo @ CHR ''-'' # hi @ post" "number_text lo" "number_text hi"
       "\<forall>k<length pre. numFilter (drop k s) = []"
       "bound (hi @ post) = (hi, post) # r0" by blast
  have left: "length pre \<le> length pre'"
    if "s = pre' @ mid @ post'" "parses_as_range mid" for pre' mid post'
  proof (rule ccontr)
    assume "\<not> length pre \<le> length pre'"
    then have "numFilter (drop (length pre') s) = []" using h(4) by simp
    moreover have "drop (length pre') s = mid @ post'" using that(1) by simp
    ultimately show False using that(2) numFilter_nonempty_iff [of "mid @ post'"] by auto
  qed
  have longest: "length hi' \<le> length hi"
    if "hi @ post = hi' @ post'" "number_text hi'" for hi' post'
    using bound_hd_longest [OF h(5) that] .
  show ?thesis
    unfolding first_range_def using h(1-3) left longest by blast
qed

lemma first_range_unique:
  assumes "first_range s lo hi" "first_range s lo' hi'"
  shows "lo = lo' \<and> hi = hi'"
proof -
  from assms(1) obtain pre post where
    a: "s = pre @ lo @ CHR ''-'' # hi @ post" "number_text lo" "number_text hi"
       "\<forall>p m q. s = p @ m @ q \<and> parses_as_range m \<longrightarrow> length pre \<le> length p"
       "\<forall>h q. hi @ post = h @ q \<and> number_text h \<longrightarrow> length h \<le> length hi"
    unfolding first_range_def by blast
  from assms(2) obtain pre' post' where
    b: "s = pre' @ lo' @ CHR ''-'' # hi' @ post'" "number_text lo'" "number_text hi'"
       "\<forall>p m q. s = p @ m @ q \<and> parses_as_range m \<longrightarrow> length pre' \<le> length p"
       "\<forall>h q. hi' @ post' = h @ q \<and> number_text h \<longrightarrow> length h \<le> length hi'"
    unfolding first_range_def by blast
  have pa: "parses_as_range (lo @ CHR ''-'' # hi)" "parses_as_range (lo' @ CHR ''-'' # hi')"
    using a(2,3) b(2,3) unfolding parses_as_range_def by blast+
  have "s = pre @ (lo @ CHR ''-'' # hi) @ post" "s = pre' @ (lo' @ CHR ''-'' # hi') @ post'"
    using a(1) b(1) by simp_all
  with pa a(4) b(4) have "length pre' \<le> length pre" "length pre \<le> length pre'" by blast+
  then have "length pre = length pre'" by simp
  with a(1) b(1) have "pre = pre'" "lo @ CHR ''-'' # hi @ post = lo' @ CHR ''-'' # hi' @ post'"
    by (metis append_eq_append_conv)+
  then have lo: "lo = lo'" and rest: "hi @ post = hi' @ post'"
    using dash_split_unique [OF number_text_no_dash [OF a(2)] number_text_no_dash [OF b(2)]]
    by blast+
  have "length hi' \<le> length hi" "length hi \<le> length hi'"
    using a(5) b(5) a(3) b(3) rest by metis+
  then have "hi = hi'" using rest by (metis append_eq_append_conv le_antisym)
  with lo show ?thesis by simp
qed

lemma first_range_iff_search:
  "first_range s lo hi \<longleftrightarrow> regex_search s = Some (lo, hi)"
proof
  assume f: "first_range s lo hi"
  then have "contains_range s"
    unfolding first_range_def contains_range_def parses_as_range_def
    by (metis append.assoc append_Cons)
  then obtain lo' hi' where r: "regex_search s = Some (lo', hi')"
    unfolding contains_range_iff_search by auto
  from first_range_unique [OF f regex_search_first_range [OF r]] r
  show "regex_search s = Some (lo, hi)" by simp
next
  assume "regex_search s = Some (lo, hi)"
  then show "first_range s lo hi" by (rule regex_search_first_range)
qed


section \<open>isFilterSubset and isSupersetOf\<close>

lemma regex_search_empty: "regex_search [] = None" by simp

lemma isFilterSubset_empty_outer: "isFilterSubset conv [] s"
  by (simp add: isFilterSubset_def split: option.splits)

lemma isFilterSubset_refl: "isFilterSubset conv s s"
  by (simp add: isFilterSubset_def)

lemma isFilterSubset_prefix_rule:
  "inner \<noteq> outer \<Longrightarrow> regex_search inner = None \<or> regex_search outer = None \<Longrightarrow>
   isFilterSubset conv outer inner = prefix_rule outer inner"
  by (auto simp: isFilterSubset_def prefix_rule_def split: option.splits)

lemma isFilterSubset_bounds:
  "inner \<noteq> outer \<Longrightarrow> regex_search inner = Some (il, iu) \<Longrightarrow> regex_search outer = Some (ol, ou) \<Longrightarrow>
   isFilterSubset conv outer inner = (conv ol 0 \<le> conv il 0 \<and> conv iu 0 \<le> conv ou 0)"
  by (simp add: isFilterSubset_def)

lemma isFilterSubset_first_range:
  "inner \<noteq> outer \<Longrightarrow> first_range inner il iu \<Longrightarrow> first_range outer ol ou \<Longrightarrow>
   isFilterSubset conv outer inner = (conv ol 0 \<le> conv il 0 \<and> conv iu 0 \<le> conv ou 0)"
  unfolding first_range_iff_search by (rule isFilterSubset_bounds)

lemma contains_range_first_range:
  "contains_range s \<Longrightarrow> \<exists>lo hi. first_range s lo hi"
  unfolding first_range_iff_search contains_range_iff_search by auto

lemma parses_as_range_first_range:
  "parses_as_range s \<Longrightarrow> first_range s (fst (range_bounds s)) (snd (range_bounds s))"
  unfolding first_range_iff_search by (simp add: regex_search_whole)

lemma stringTo_of_zero: "stringTo_of parse t 0 = bound_value parse t"
  by (simp add: stringTo_of_def bound_value_def)

lemma filtersLoop_iff:
  "filtersLoop conv w n i \<longleftrightarrow>
     (\<forall>j. i \<le> j \<and> j < min (length n) (length w) \<longrightarrow> isFilterSubset conv (w ! j) (n ! j))"
proof (induction conv w n i rule: filtersLoop.induct)
  case (1 conv w n i)
  let ?m = "min (length n) (length w)"
  let ?P = "\<lambda>j. isFilterSubset conv (w ! j) (n ! j)"
  show ?case
  proof (cases "i < ?m")
    case False
    then have "filtersLoop conv w n i" by (subst filtersLoop.simps) auto
    moreover have "\<forall>j. i \<le> j \<and> j < ?m \<longrightarrow> ?P j" using False by auto
    ultimately show ?thesis by blast
  next
    case True
    show ?thesis
    proof (cases "?P i")
      case False
      with True have "\<not> filtersLoop conv w n i" by (subst filtersLoop.simps) auto
      moreover have "\<not> (\<forall>j. i \<le> j \<and> j < ?m \<longrightarrow> ?P j)" using True False by blast
      ultimately show ?thesis by blast
    next
      case yes: True
      with True have "filtersLoop conv w n i = filtersLoop conv w n (Suc i)"
        by (subst filtersLoop.simps) auto
      also have "\<dots> \<longleftrightarrow> (\<forall>j. Suc i \<le> j \<and> j < ?m \<longrightarrow> ?P j)"
        using "1.IH" [OF True] yes by simp
      also have "\<dots> \<longleftrightarrow> (\<forall>j. i \<le> j \<and> j < ?m \<longrightarrow> ?P j)"
        using yes by (metis Suc_leI le_neq_implies_less Suc_leD)
      finally show ?thesis .
    qed
  qed
qed

lemma isSupersetOf_iff_all:
  "isSupersetOf conv frame newSearch newFilters \<longleftrightarrow>
     isFilterSubset conv (workingSearch frame) newSearch \<and>
     (\<forall>i<min (length newFilters) (length (workingFilters frame)).
        isFilterSubset conv (workingFilters frame ! i) (newFilters ! i))"
  by (simp add: isSupersetOf_def filtersLoop_iff)

section \<open>Claims about the filter comparison\<close>

text \<open>
  Claim C2, as amended. \<open>isFilterSubset\<close> is true for equal strings. For unequal strings
  that are numeric ranges as a whole (each bound digits, optionally a dot, optionally more
  digits) it compares their bounds, each converted with the default 0: true iff the inner
  lower bound is at least the outer lower bound and the inner upper bound is at most the
  outer upper bound. The same comparison is made whenever both strings merely contain a
  range, on the bounds of the first range of each string; for a conversion that gives
  its default when it cannot read a text, a bound that cannot be read counts as 0. In
  every other case the result is the prefix rule. The four examples of the claim hold for
  every conversion that orders 1 below 3 and 7 below 10.
\<close>

theorem isFilterSubset_rule:
  fixes conv :: "string \<Rightarrow> 'n \<Rightarrow> 'n::{linorder,zero}" and parse :: "string \<Rightarrow> 'n option"
  shows
  "(outer = inner \<longrightarrow> isFilterSubset conv outer inner) \<and>
   (outer \<noteq> inner \<and> parses_as_range outer \<and> parses_as_range inner \<longrightarrow>
      isFilterSubset conv outer inner =
        (conv (fst (range_bounds outer)) 0 \<le> conv (fst (range_bounds inner)) 0 \<and>
         conv (snd (range_bounds inner)) 0 \<le> conv (snd (range_bounds outer)) 0)) \<and>
   (outer \<noteq> inner \<and> contains_range outer \<and> contains_range inner \<longrightarrow>
      (\<exists>il iu ol ou. first_range inner il iu \<and> first_range outer ol ou \<and>
         isFilterSubset conv outer inner = (conv ol 0 \<le> conv il 0 \<and> conv iu 0 \<le> conv ou 0) \<and>
         isFilterSubset (stringTo_of parse) outer inner =
           (bound_value parse ol \<le> bound_value parse il \<and>
            bound_value parse iu \<le> bound_value parse ou))) \<and>
   (outer \<noteq> inner \<and> \<not> (contains_range outer \<and> contains_range inner) \<longrightarrow>
      isFilterSubset conv outer inner = prefix_rule outer inner) \<and>
   (conv ''1'' 0 \<le> conv ''3'' 0 \<and> conv ''7'' 0 \<le> conv ''10'' 0 \<longrightarrow>
      isFilterSubset conv ''1-10'' ''3-7'') \<and>
   (conv ''1'' 0 < conv ''3'' 0 \<longrightarrow> \<not> isFilterSubset conv ''3-7'' ''1-10'') \<and>
   isFilterSubset conv ''abc'' ''abcd'' \<and> \<not> isFilterSubset conv ''abcd'' ''abc''"
proof -
  have 1: "outer = inner \<longrightarrow> isFilterSubset conv outer inner"
    by (simp add: isFilterSubset_refl)
  have 2: "outer \<noteq> inner \<and> parses_as_range outer \<and> parses_as_range inner \<longrightarrow>
      isFilterSubset conv outer inner =
        (conv (fst (range_bounds outer)) 0 \<le> conv (fst (range_bounds inner)) 0 \<and>
         conv (snd (range_bounds inner)) 0 \<le> conv (snd (range_bounds outer)) 0)"
  proof
    assume h: "outer \<noteq> inner \<and> parses_as_range outer \<and> parses_as_range inner"
    then have "inner \<noteq> outer"
      "first_range inner (fst (range_bounds inner)) (snd (range_bounds inner))"
      "first_range outer (fst (range_bounds outer)) (snd (range_bounds outer))"
      by (auto simp: parses_as_range_first_range)
    then show "isFilterSubset conv outer inner =
        (conv (fst (range_bounds outer)) 0 \<le> conv (fst (range_bounds inner)) 0 \<and>
         conv (snd (range_bounds inner)) 0 \<le> conv (snd (range_bounds outer)) 0)"
      by (rule isFilterSubset_first_range)
  qed
  have 3: "outer \<noteq> inner \<and> contains_range outer \<and> contains_range inner \<longrightarrow>
      (\<exists>il iu ol ou. first_range inner il iu \<and> first_range outer ol ou \<and>
         isFilterSubset conv outer inner = (conv ol 0 \<le> conv il 0 \<and> conv iu 0 \<le> conv ou 0) \<and>
         isFilterSubset (stringTo_of parse) outer inner =
           (bound_value parse ol \<le> bound_value parse il \<and>
            bound_value parse iu \<le> bound_value parse ou))"
  proof
    assume h: "outer \<noteq> inner \<and> contains_range outer \<and> contains_range inner"
    then obtain il iu ol ou where
      s: "first_range inner il iu" "first_range outer ol ou"
      using contains_range_first_range by blast
    from h have d: "inner \<noteq> outer" by auto
    have "isFilterSubset conv outer inner = (conv ol 0 \<le> conv il 0 \<and> conv iu 0 \<le> conv ou 0)"
      using isFilterSubset_first_range [OF d s] .
    moreover have "isFilterSubset (stringTo_of parse) outer inner =
           (bound_value parse ol \<le> bound_value parse il \<and>
            bound_value parse iu \<le> bound_value parse ou)"
      using isFilterSubset_first_range [OF d s, of "stringTo_of parse"]
      by (simp add: stringTo_of_zero)
    ultimately show "\<exists>il iu ol ou. first_range inner il iu \<and> first_range outer ol ou \<and>
         isFilterSubset conv outer inner = (conv ol 0 \<le> conv il 0 \<and> conv iu 0 \<le> conv ou 0) \<and>
         isFilterSubset (stringTo_of parse) outer inner =
           (bound_value parse ol \<le> bound_value parse il \<and>
            bound_value parse iu \<le> bound_value parse ou)"
      using s by blast
  qed
  have 4: "outer \<noteq> inner \<and> \<not> (contains_range outer \<and> contains_range inner) \<longrightarrow>
      isFilterSubset conv outer inner = prefix_rule outer inner"
    using isFilterSubset_prefix_rule [of inner outer conv]
    unfolding contains_range_iff_search by metis
  have r1: "regex_search ''1-10'' = Some (''1'', ''10'')" by code_simp
  have r2: "regex_search ''3-7'' = Some (''3'', ''7'')" by code_simp
  have 5: "conv ''1'' 0 \<le> conv ''3'' 0 \<and> conv ''7'' 0 \<le> conv ''10'' 0 \<longrightarrow>
      isFilterSubset conv ''1-10'' ''3-7''"
    using isFilterSubset_bounds [OF _ r2 r1, of conv] by simp
  have 6: "conv ''1'' 0 < conv ''3'' 0 \<longrightarrow> \<not> isFilterSubset conv ''3-7'' ''1-10''"
    using isFilterSubset_bounds [OF _ r1 r2, of conv] by auto
  have r3: "regex_search ''abc'' = None" by code_simp
  have 7: "isFilterSubset conv ''abc'' ''abcd''"
    using isFilterSubset_prefix_rule [of "''abcd''" "''abc''" conv] r3
    by (simp add: prefix_rule_def)
  have 8: "\<not> isFilterSubset conv ''abcd'' ''abc''"
    using isFilterSubset_prefix_rule [of "''abc''" "''abcd''" conv] r3
    by (simp add: prefix_rule_def)
  from 1 2 3 4 5 6 7 8 show ?thesis by blast
qed

text \<open>
  Claim C2 as it is worded fails: neither \<^verbatim>\<open>a1-2\<close> nor \<^verbatim>\<open>b1-2\<close> parses as a range and
  the second does not start with the first, so the worded rule gives false; the code
  finds the range \<^verbatim>\<open>1-2\<close> inside both and answers true.
\<close>

theorem isFilterSubset_rule_counterexample:
  "isFilterSubset stringTo_decimal ''a1-2'' ''b1-2'' \<and>
   \<not> IsSubset_spec stringTo_decimal ''a1-2'' ''b1-2''"
  by code_simp

text \<open>
  The rule of claim C2 at concrete strings, one for each of its cases: equal strings;
  whole ranges with integer and with fractional bounds (\<^verbatim>\<open>0.25-1\<close> is not inside
  \<^verbatim>\<open>0.5-1\<close>, \<^verbatim>\<open>2.71-3.14\<close> is inside \<^verbatim>\<open>2.5-3.75\<close>); ranges inside other text; a bound
  that the reader of single digits cannot read (\<^verbatim>\<open>10\<close>, so that \<^verbatim>\<open>5-7\<close> is inside
  \<^verbatim>\<open>10-9\<close>, whose lower bound counts as 0); and the prefix rule.
\<close>

theorem isFilterSubset_rule_witness:
  "isFilterSubset stringTo_decimal ''x'' ''x'' \<and>
   isFilterSubset stringTo_decimal ''1-10'' ''3-7'' \<and>
   \<not> isFilterSubset stringTo_decimal ''3-7'' ''1-10'' \<and>
   \<not> isFilterSubset stringTo_decimal ''0.5-1'' ''0.25-1'' \<and>
   isFilterSubset stringTo_decimal ''2.5-3.75'' ''2.71-3.14'' \<and>
   isFilterSubset stringTo_decimal ''q0.7-5'' ''x1.5-2.5y'' \<and>
   isFilterSubset (stringTo_of one_digit) ''10-9'' ''5-7'' \<and>
   isFilterSubset stringTo_decimal ''abc'' ''abcd'' \<and>
   \<not> isFilterSubset stringTo_decimal ''abcd'' ''abc''"
proof -
  have p: "parses_as_range ''1-10''" "parses_as_range ''3-7''" "parses_as_range ''0.5-1''"
    "parses_as_range ''0.25-1''" "parses_as_range ''2.5-3.75''" "parses_as_range ''2.71-3.14''"
    by code_simp+
  have c: "contains_range ''q0.7-5''" "contains_range ''x1.5-2.5y''" "contains_range ''10-9''"
    "contains_range ''5-7''" by code_simp+
  have n: "\<not> contains_range ''abc''" by code_simp
  have b: "range_bounds ''1-10'' = (''1'', ''10'')" "range_bounds ''3-7'' = (''3'', ''7'')"
    "range_bounds ''0.5-1'' = (''0.5'', ''1'')" "range_bounds ''0.25-1'' = (''0.25'', ''1'')"
    "range_bounds ''2.5-3.75'' = (''2.5'', ''3.75'')"
    "range_bounds ''2.71-3.14'' = (''2.71'', ''3.14'')"
    by code_simp+
  have v: "stringTo_decimal ''1'' 0 \<le> stringTo_decimal ''3'' 0"
    "stringTo_decimal ''7'' 0 \<le> stringTo_decimal ''10'' 0"
    "stringTo_decimal ''1'' 0 < stringTo_decimal ''3'' 0"
    "\<not> stringTo_decimal ''0.5'' 0 \<le> stringTo_decimal ''0.25'' 0"
    "stringTo_decimal ''2.5'' 0 \<le> stringTo_decimal ''2.71'' 0"
    "stringTo_decimal ''3.14'' 0 \<le> stringTo_decimal ''3.75'' 0"
    "stringTo_decimal ''0.7'' 0 \<le> stringTo_decimal ''1.5'' 0"
    "stringTo_decimal ''2.5'' 0 \<le> stringTo_decimal ''5'' 0" by code_simp+
  have w: "bound_value one_digit ''10'' \<le> bound_value one_digit ''5''"
    "bound_value one_digit ''7'' \<le> bound_value one_digit ''9''" by code_simp+
  have pr: "prefix_rule ''abc'' ''abcd''" "\<not> prefix_rule ''abcd'' ''abc''"
    by (simp_all add: prefix_rule_def)
  have u: "first_range ''x1.5-2.5y'' l h \<longleftrightarrow> l = ''1.5'' \<and> h = ''2.5''"
    "first_range ''q0.7-5'' l h \<longleftrightarrow> l = ''0.7'' \<and> h = ''5''"
    "first_range ''10-9'' l h \<longleftrightarrow> l = ''10'' \<and> h = ''9''"
    "first_range ''5-7'' l h \<longleftrightarrow> l = ''5'' \<and> h = ''7''" for l h
  proof -
    have "regex_search ''x1.5-2.5y'' = Some (''1.5'', ''2.5'')"
      "regex_search ''q0.7-5'' = Some (''0.7'', ''5'')"
      "regex_search ''10-9'' = Some (''10'', ''9'')"
      "regex_search ''5-7'' = Some (''5'', ''7'')" by code_simp+
    then show "first_range ''x1.5-2.5y'' l h \<longleftrightarrow> l = ''1.5'' \<and> h = ''2.5''"
      "first_range ''q0.7-5'' l h \<longleftrightarrow> l = ''0.7'' \<and> h = ''5''"
      "first_range ''10-9'' l h \<longleftrightarrow> l = ''10'' \<and> h = ''9''"
      "first_range ''5-7'' l h \<longleftrightarrow> l = ''5'' \<and> h = ''7''"
      unfolding first_range_iff_search by auto
  qed
  have e: "isFilterSubset stringTo_decimal ''q0.7-5'' ''x1.5-2.5y''"
    using isFilterSubset_rule [of "''q0.7-5''" "''x1.5-2.5y''" stringTo_decimal one_digit]
      c u v by auto
  have f: "isFilterSubset (stringTo_of one_digit) ''10-9'' ''5-7''"
    using isFilterSubset_rule [of "''10-9''" "''5-7''" stringTo_decimal one_digit]
      c u w by auto
  show ?thesis
    using isFilterSubset_rule [of "''x''" "''x''" stringTo_decimal one_digit]
      isFilterSubset_rule [of "''1-10''" "''3-7''" stringTo_decimal one_digit]
      isFilterSubset_rule [of "''3-7''" "''1-10''" stringTo_decimal one_digit]
      isFilterSubset_rule [of "''0.5-1''" "''0.25-1''" stringTo_decimal one_digit]
      isFilterSubset_rule [of "''2.5-3.75''" "''2.71-3.14''" stringTo_decimal one_digit]
      isFilterSubset_rule [of "''abc''" "''abcd''" stringTo_decimal one_digit]
      isFilterSubset_rule [of "''abcd''" "''abc''" stringTo_decimal one_digit]
      p n b v pr e f
    by simp
qed

text \<open>
  Claim C10. When the two strings differ and each contains a numeric range (digits,
  a dash, digits, each side with an optional fractional part) anywhere inside it, the
  result is the comparison of the bounds of the first range of each string, each
  converted with the default 0; the text around the ranges plays no part. The first
  range of a string is the one that starts leftmost, with the longest upper bound
  that can be read there, and it is the only such pair of bounds.
\<close>

theorem embedded_range_compared_by_bounds:
  fixes conv :: "string \<Rightarrow> 'n \<Rightarrow> 'n::{linorder,zero}"
  assumes "inner \<noteq> outer" "contains_range inner" "contains_range outer"
  shows "\<exists>il iu ol ou.
           first_range inner il iu \<and> (\<forall>l u. first_range inner l u \<longrightarrow> l = il \<and> u = iu) \<and>
           first_range outer ol ou \<and> (\<forall>l u. first_range outer l u \<longrightarrow> l = ol \<and> u = ou) \<and>
           isFilterSubset conv outer inner = (conv ol 0 \<le> conv il 0 \<and> conv iu 0 \<le> conv ou 0)"
proof -
  from assms(2,3) obtain il iu ol ou where
    s: "first_range inner il iu" "first_range outer ol ou"
    using contains_range_first_range by blast
  have "isFilterSubset conv outer inner = (conv ol 0 \<le> conv il 0 \<and> conv iu 0 \<le> conv ou 0)"
    using isFilterSubset_first_range [OF assms(1) s] .
  moreover have "\<forall>l u. first_range inner l u \<longrightarrow> l = il \<and> u = iu"
    using first_range_unique [OF _ s(1)] by blast
  moreover have "\<forall>l u. first_range outer l u \<longrightarrow> l = ol \<and> u = ou"
    using first_range_unique [OF _ s(2)] by blast
  ultimately show ?thesis using s by blast
qed

text \<open>
  Claim C10 at \<^verbatim>\<open>x1.5-2.5y\<close>, which is not a range as a whole and whose first range has
  the bounds 1.5 and 2.5: it is inside \<^verbatim>\<open>q0.7-5\<close> and not inside \<^verbatim>\<open>q1.7-5\<close>, where the
  prefix rule would say false both times.
\<close>

theorem embedded_range_compared_by_bounds_witness:
  "''x1.5-2.5y'' \<noteq> ''q0.7-5'' \<and> contains_range ''x1.5-2.5y'' \<and> contains_range ''q0.7-5'' \<and>
   \<not> parses_as_range ''x1.5-2.5y'' \<and> first_range ''x1.5-2.5y'' ''1.5'' ''2.5'' \<and>
   first_range ''q0.7-5'' ''0.7'' ''5'' \<and>
   isFilterSubset stringTo_decimal ''q0.7-5'' ''x1.5-2.5y'' \<and>
   \<not> isFilterSubset stringTo_decimal ''q1.7-5'' ''x1.5-2.5y'' \<and>
   \<not> prefix_rule ''q0.7-5'' ''x1.5-2.5y''"
proof -
  have c: "contains_range ''x1.5-2.5y''" "contains_range ''q0.7-5''" "contains_range ''q1.7-5''"
    by code_simp+
  have r: "first_range ''x1.5-2.5y'' ''1.5'' ''2.5''" "first_range ''q0.7-5'' ''0.7'' ''5''"
    "first_range ''q1.7-5'' ''1.7'' ''5''"
    unfolding first_range_iff_search by code_simp+
  have v: "stringTo_decimal ''0.7'' 0 \<le> stringTo_decimal ''1.5'' 0"
    "stringTo_decimal ''2.5'' 0 \<le> stringTo_decimal ''5'' 0"
    "\<not> stringTo_decimal ''1.7'' 0 \<le> stringTo_decimal ''1.5'' 0" by code_simp+
  have n: "\<not> parses_as_range ''x1.5-2.5y''" by code_simp
  have d: "''x1.5-2.5y'' \<noteq> ''q0.7-5''" "''x1.5-2.5y'' \<noteq> ''q1.7-5''" by simp_all
  from embedded_range_compared_by_bounds [OF d(1) c(1,2), of stringTo_decimal]
  have 1: "isFilterSubset stringTo_decimal ''q0.7-5'' ''x1.5-2.5y''"
    using r v by metis
  from embedded_range_compared_by_bounds [OF d(2) c(1,3), of stringTo_decimal]
  have 2: "\<not> isFilterSubset stringTo_decimal ''q1.7-5'' ''x1.5-2.5y''"
    using r v by metis
  from 1 2 show ?thesis using c n r by (simp add: prefix_rule_def)
qed

text \<open>
  Claim C4. \<open>isSupersetOf\<close> is true iff the working search is a superset of the new
  search and, at every index below the length of the shorter of the two filter lists, the
  working filter is a superset of the new filter. Entries beyond the shorter list are not
  looked at: appending entries to either list, once the other has ended, does not change
  the result.
\<close>

theorem isSupersetOf_shared_indices:
  fixes conv :: "string \<Rightarrow> 'n \<Rightarrow> 'n::{linorder,zero}"
  shows
  "(isSupersetOf conv frame newSearch newFilters \<longleftrightarrow>
      isFilterSubset conv (workingSearch frame) newSearch \<and>
      (\<forall>i<min (length newFilters) (length (workingFilters frame)).
         isFilterSubset conv (workingFilters frame ! i) (newFilters ! i))) \<and>
   (length ws = length ns \<longrightarrow>
      isSupersetOf conv (frame\<lparr>workingFilters := ws @ more_working\<rparr>) newSearch ns =
        isSupersetOf conv (frame\<lparr>workingFilters := ws\<rparr>) newSearch ns \<and>
      isSupersetOf conv (frame\<lparr>workingFilters := ws\<rparr>) newSearch (ns @ more_new) =
        isSupersetOf conv (frame\<lparr>workingFilters := ws\<rparr>) newSearch ns)"
  by (auto simp: isSupersetOf_iff_all nth_append)

text \<open>
  Claim C4 at a frame with two working filters and a request with three: the third
  requested filter is unrelated to anything recorded and the result is true.
\<close>

theorem isSupersetOf_shared_indices_witness:
  "isSupersetOf stringTo_decimal
     \<lparr>envName = [], objName = ''df'', ncol = 3, colNames = [''a'', ''b'', ''c''],
      workingSearch = ''ap'', workingFilters = [''1-10'', ''ab''],
      workingOrderCol = 0, workingOrderDir = ''asc'', observedSEXP = (NULL :: rval SEXP)\<rparr>
     ''app'' [''3-7'', ''abc'', ''zzz'']"
proof -
  have f: "isFilterSubset stringTo_decimal ''ap'' ''app''"
    "isFilterSubset stringTo_decimal ''1-10'' ''3-7''"
    "isFilterSubset stringTo_decimal ''ab'' ''abc''" by code_simp+
  have all2: "(\<forall>i<Suc (Suc 0). P i) \<longleftrightarrow> P 0 \<and> P (Suc 0)" for P :: "nat \<Rightarrow> bool"
    by (auto simp: less_Suc_eq)
  show ?thesis
    using f isSupersetOf_shared_indices [of stringTo_decimal
      "\<lparr>envName = [], objName = ''df'', ncol = 3, colNames = [''a'', ''b'', ''c''],
        workingSearch = ''ap'', workingFilters = [''1-10'', ''ab''],
        workingOrderCol = 0, workingOrderDir = ''asc'', observedSEXP = (NULL :: rval SEXP)\<rparr>"
      "''app''" "[''3-7'', ''abc'', ''zzz'']" "[]" "[]"]
    by (simp add: all2)
qed

section \<open>The page request\<close>

lemma map_of_map_assign: "map_of (map_assign k v xs) = (map_of xs)(k \<mapsto> v)"
  by (induction xs) auto

lemma sint_diff_nonneg:
  fixes a b :: int32
  assumes "0 \<le> sint a" "0 \<le> sint b"
  shows "sint (a - b) = sint a - sint b"
proof -
  have "sint a < 2 ^ 31" "sint b < 2 ^ 31"
    using sint_lt [of a] sint_lt [of b] by simp_all
  with assms have "- (2 ^ 31) \<le> sint a - sint b" "sint a - sint b < 2 ^ 31" by simp_all
  then have "signed_take_bit 31 (sint a - sint b) = sint a - sint b"
    by (rule signed_take_bit_int_eq_self)
  then show ?thesis by (simp add: sint_word_diff)
qed

lemma clampLength_sint:
  assumes "0 \<le> sint start" "0 \<le> sint filteredNRow"
  shows "sint (clampLength len filteredNRow start) = min (sint len) (sint filteredNRow - sint start)"
  using sint_diff_nonneg [OF assms(2,1)] by (simp add: clampLength_def)



lemma registry_ok_empty: "registry_ok []"
  by (simp add: registry_ok_def)


lemma registry_ok_map_assign:
  "registry_ok frames \<Longrightarrow> frame_ok f \<Longrightarrow> registry_ok (map_assign k f frames)"
  by (induction frames) (auto simp: registry_ok_def)

lemma frame_ok_new: "frame_ok (CachedFrame_new R env obj sexp)"
  by (simp add: frame_ok_def CachedFrame_new_def Let_def)




lemma getData_page:
  assumes "fst (getData conv R frames dataSEXP fieldsv) = Inr g"
  shows "\<exists>source formatted.
           formatColumns R source (r_start (readRequest R dataSEXP fieldsv) + 1)
             (clampLength (r_length (readRequest R dataSEXP fieldsv)) (recordsFiltered g)
                (r_start (readRequest R dataSEXP fieldsv)))
             [0..<unat (r_ncol (readRequest R dataSEXP fieldsv))] = Inr formatted \<and>
           length (data g) =
             nat (sint (clampLength (r_length (readRequest R dataSEXP fieldsv)) (recordsFiltered g)
                          (r_start (readRequest R dataSEXP fieldsv))))"
  using assms
  by (auto simp: getData_def Let_def makeGrid_def split: prod.splits sum.splits; blast)

text \<open>
  Claim C3, as amended. The effective page length is the lesser of the requested length
  and \<^verbatim>\<open>filteredNRow - start\<close>; it is not raised to 0. It is computed from the zero-based
  start, and the format calls get \<^verbatim>\<open>start + 1\<close> and this length. The grid of a response
  has as many rows as the effective length says, none when it is negative; for a start,
  a row count and a requested length that are not negative this is
  \<^verbatim>\<open>min(length, max(0, filteredNRow - start))\<close>.
\<close>

theorem page_length_is_lesser_of_requested_and_available:
  fixes conv :: "string \<Rightarrow> 'n \<Rightarrow> 'n::{linorder,zero}"
  shows
  "(0 \<le> sint start \<and> 0 \<le> sint filteredNRow \<longrightarrow>
      sint (clampLength len filteredNRow start) = min (sint len) (sint filteredNRow - sint start)) \<and>
   (0 \<le> sint start \<and> 0 \<le> sint filteredNRow \<and> 0 \<le> sint len \<longrightarrow>
      nat (sint (clampLength len filteredNRow start)) =
        nat (min (sint len) (max 0 (sint filteredNRow - sint start)))) \<and>
   (\<forall>g. fst (getData conv R frames dataSEXP fieldsv) = Inr g \<longrightarrow>
      (\<exists>source formatted.
         formatColumns R source (r_start (readRequest R dataSEXP fieldsv) + 1)
           (clampLength (r_length (readRequest R dataSEXP fieldsv)) (recordsFiltered g)
              (r_start (readRequest R dataSEXP fieldsv)))
           [0..<unat (r_ncol (readRequest R dataSEXP fieldsv))] = Inr formatted \<and>
         length (data g) =
           nat (sint (clampLength (r_length (readRequest R dataSEXP fieldsv)) (recordsFiltered g)
                        (r_start (readRequest R dataSEXP fieldsv))))))"
proof -
  have 1: "0 \<le> sint start \<and> 0 \<le> sint filteredNRow \<longrightarrow>
      sint (clampLength len filteredNRow start) = min (sint len) (sint filteredNRow - sint start)"
    by (simp add: clampLength_sint)
  have 2: "0 \<le> sint start \<and> 0 \<le> sint filteredNRow \<and> 0 \<le> sint len \<longrightarrow>
      nat (sint (clampLength len filteredNRow start)) =
        nat (min (sint len) (max 0 (sint filteredNRow - sint start)))"
    by (auto simp: clampLength_sint)
  from 1 2 getData_page [of conv R frames dataSEXP fieldsv] show ?thesis by blast
qed

text \<open>Claim C3 at start 0 and length 10 against five rows: the grid has five rows.\<close>

theorem page_length_is_lesser_of_requested_and_available_witness:
  "\<exists>g. fst (getData stringTo_decimal (servingHost five_rows R_NilValue) [] five_rows
            (demo_parseQueryString ''draw=1&start=0&length=10'')) = Inr g \<and>
        recordsFiltered g = 5 \<and> length (data g) = 5"
proof -
  let ?R = "servingHost five_rows R_NilValue"
  let ?fields = "demo_parseQueryString ''draw=1&start=0&length=10''"
  obtain g where g: "fst (getData stringTo_decimal ?R [] five_rows ?fields) = Inr g"
    "recordsFiltered g = 5"
  proof
    show "fst (getData stringTo_decimal ?R [] five_rows ?fields) =
      Inr \<lparr>draw = 1, recordsTotal = 5, recordsFiltered = 5,
           data = [[JInt 1, JString ''1'', JString ''v''],
                [JInt 2, JString ''2'', JString ''w''],
                [JInt 3, JString ''3'', JString ''x''],
                [JInt 4, JString ''4'', JString ''y''],
                [JInt 5, JString ''5'', JString ''z'']]\<rparr>" by code_simp
    show "recordsFiltered \<lparr>draw = 1, recordsTotal = 5, recordsFiltered = 5,
           data = [[JInt 1, JString ''1'', JString ''v''],
                [JInt 2, JString ''2'', JString ''w''],
                [JInt 3, JString ''3'', JString ''x''],
                [JInt 4, JString ''4'', JString ''y''],
                [JInt 5, JString ''5'', JString ''z'']]\<rparr> = 5" by simp
  qed
  have rq: "r_length (readRequest ?R five_rows ?fields) = 10"
    "r_start (readRequest ?R five_rows ?fields) = 0" by code_simp+
  have c: "0 \<le> sint (0::int32)" "0 \<le> sint (5::int32)" "0 \<le> sint (10::int32)" by simp_all
  from page_length_is_lesser_of_requested_and_available
         [of 0 5 10 stringTo_decimal ?R "[]" five_rows ?fields] g rq c
  have "length (data g) = 5" by auto
  with g show ?thesis by blast
qed

text \<open>
  Claim C3 as it is worded fails: at start 10 and length 10 against five rows the
  effective length is -5, and it is this negative length that the column formatter is
  called with.
\<close>

theorem page_length_is_lesser_of_requested_and_available_counterexample:
  "sint (clampLength 10 5 10) = - 5 \<and>
   fst (getData stringTo_decimal strictHost [] five_rows
          (demo_parseQueryString ''draw=1&start=10&length=10'')) = Inl ''invalid length''"
  by code_simp

text \<open>
  Claim C9, as amended. The empty string is a superset of every string; a frame whose
  working search and working filters are all empty is a superset of every request; and
  when the session holds working data for the key of such a frame, a request with a
  search or a filter that is not empty goes on from that working data and still needs
  its transform.
\<close>

theorem empty_filter_is_superset:
  fixes conv :: "string \<Rightarrow> 'n \<Rightarrow> 'n::{linorder,zero}"
  shows
  "isFilterSubset conv [] s \<and>
   (workingSearch frame = [] \<and> (\<forall>w\<in>set (workingFilters frame). w = []) \<longrightarrow>
      isSupersetOf conv frame newSearch newFilters) \<and>
   (workingSearch frame = [] \<and> (\<forall>w\<in>set (workingFilters frame). w = []) \<and>
    map_of frames cacheKey = Some frame \<and> (newSearch \<noteq> [] \<or> hasFilter newFilters) \<and>
    \<not> isNullSEXP (assigned NULL (findWorkingData R cacheKey)) \<longrightarrow>
      selectSource conv R frames cacheKey dataSEXP newSearch newFilters orderdir ordercol True =
        (assigned NULL (findWorkingData R cacheKey), True, False))"
proof -
  have sup: "isSupersetOf conv frame newSearch newFilters"
    if "workingSearch frame = []" "\<forall>w\<in>set (workingFilters frame). w = []"
  proof -
    have "isFilterSubset conv (workingFilters frame ! i) (newFilters ! i)"
      if "i < length (workingFilters frame)" for i
    proof -
      have "workingFilters frame ! i = []"
        using that \<open>\<forall>w\<in>set (workingFilters frame). w = []\<close> nth_mem by blast
      then show ?thesis by (simp add: isFilterSubset_empty_outer)
    qed
    then show ?thesis
      using \<open>workingSearch frame = []\<close>
      by (simp add: isSupersetOf_iff_all isFilterSubset_empty_outer)
  qed
  have path: "selectSource conv R frames cacheKey dataSEXP newSearch newFilters orderdir ordercol True =
        (assigned NULL (findWorkingData R cacheKey), True, False)"
    if h: "workingSearch frame = []" "\<forall>w\<in>set (workingFilters frame). w = []"
      "map_of frames cacheKey = Some frame" "newSearch \<noteq> [] \<or> hasFilter newFilters"
      "\<not> isNullSEXP (assigned NULL (findWorkingData R cacheKey))"
  proof -
    have "\<not> (workingSearch frame = newSearch \<and> workingFilters frame = newFilters)"
      using h(1,2,4) by (auto simp: hasFilter_def list_ex_iff)
    then show ?thesis
      using h(3,5) sup [OF h(1,2)] by (auto simp: selectSource_def)
  qed
  from sup path show ?thesis
    using isFilterSubset_empty_outer [of conv s] by blast
qed

text \<open>
  Claim C9 at a frame that was ordered by its first column only, with working data of
  three rows held, and a request that adds a search and a filter.
\<close>

theorem empty_filter_is_superset_witness:
  "isFilterSubset stringTo_decimal [] ''1-5'' \<and>
   isSupersetOf stringTo_decimal (freshFrame five_rows) ''a'' [''x'', []] \<and>
   selectSource stringTo_decimal (servingHost five_rows three_rows)
     [(''k1'', (freshFrame five_rows)\<lparr>workingFilters := [[], []], workingOrderCol := 1,
                                       workingOrderDir := ''asc''\<rparr>)]
     ''k1'' five_rows ''a'' [''x'', []] ''asc'' 1 True = (three_rows, True, False)"
proof -
  let ?frame = "(freshFrame five_rows)\<lparr>workingFilters := [[], []], workingOrderCol := 1,
                                       workingOrderDir := ''asc''\<rparr>"
  let ?R = "servingHost five_rows three_rows"
  have a: "workingSearch (freshFrame five_rows) = []"
    "\<forall>w\<in>set (workingFilters (freshFrame five_rows)). w = []"
    "workingSearch ?frame = []" "\<forall>w\<in>set (workingFilters ?frame). w = []"
    by (simp_all add: freshFrame_def CachedFrame_new_def Let_def)
  have b: "map_of [(''k1'', ?frame)] ''k1'' = Some ?frame" by simp
  have c: "\<not> isNullSEXP (assigned NULL (findWorkingData ?R ''k1''))"
    "assigned NULL (findWorkingData ?R ''k1'') = three_rows" by code_simp+
  have d: "hasFilter [''x'', []]" by code_simp
  from empty_filter_is_superset [of stringTo_decimal "''1-5''" "freshFrame five_rows" "''a''"
      "[''x'', []]" "[]" "[]" ?R five_rows "[]" 0]
  have 1: "isFilterSubset stringTo_decimal [] ''1-5'' \<and>
    isSupersetOf stringTo_decimal (freshFrame five_rows) ''a'' [''x'', []]"
    using a by blast
  from empty_filter_is_superset [of stringTo_decimal "[]" ?frame "''a''"
      "[''x'', []]" "[(''k1'', ?frame)]" "''k1''" ?R five_rows "''asc''" 1]
  have 2: "selectSource stringTo_decimal ?R [(''k1'', ?frame)] ''k1'' five_rows ''a'' [''x'', []]
      ''asc'' 1 True = (three_rows, True, False)"
    using a(3,4) b c d by auto
  from 1 2 show ?thesis by blast
qed

text \<open>
  Claim C9 as it is worded fails when no working data is held: the frame is new, the
  request adds the search \<^verbatim>\<open>a\<close>, the frame is a superset of the request, and the
  transform starts from the original data.
\<close>

theorem empty_filter_is_superset_counterexample:
  "workingSearch (freshFrame five_rows) = [] \<and> workingFilters (freshFrame five_rows) = [] \<and>
   map_of [(''k1'', freshFrame five_rows)] ''k1'' = Some (freshFrame five_rows) \<and>
   isSupersetOf stringTo_decimal (freshFrame five_rows) ''a'' [[], []] \<and>
   assigned NULL (findWorkingData (servingHost five_rows R_NilValue) ''k1'') = R_NilValue \<and>
   selectSource stringTo_decimal (servingHost five_rows R_NilValue)
     [(''k1'', freshFrame five_rows)] ''k1'' five_rows ''a'' [[], []] ''asc'' (- 1) True =
     (five_rows, True, False)"
  by code_simp

section \<open>The change scan\<close>

lemma onDetectChanges_keys: "map fst (fst (onDetectChanges R frames)) = map fst frames"
  by (induction frames) (auto simp: Let_def split: prod.splits)

lemma onDetectChanges_changed:
  assumes "(key, frame) \<in> set frames"
    "findInNamedEnvir R (envName frame) (objName frame) \<noteq> observedSEXP frame"
  shows "(key, CachedFrame_new R (envName frame) (objName frame)
                 (findInNamedEnvir R (envName frame) (objName frame)))
           \<in> set (fst (onDetectChanges R frames)) \<and>
         RemoveWorkingData key \<in> set (snd (onDetectChanges R frames)) \<and>
         DataViewChanged key
           (ncol frame \<noteq> ncol (CachedFrame_new R (envName frame) (objName frame)
                                   (findInNamedEnvir R (envName frame) (objName frame))) \<or>
            colNames frame \<noteq> colNames (CachedFrame_new R (envName frame) (objName frame)
                                   (findInNamedEnvir R (envName frame) (objName frame))))
           \<in> set (snd (onDetectChanges R frames))"
  using assms
proof (induction frames)
  case Nil
  then show ?case by simp
next
  case (Cons entry frames)
  obtain k f where entry: "entry = (k, f)" by (cases entry) auto
  obtain rest' effects where rec: "onDetectChanges R frames = (rest', effects)"
    by (cases "onDetectChanges R frames") auto
  show ?case
  proof (cases "(key, frame) = entry")
    case True
    then show ?thesis using Cons.prems(2) entry rec by (simp add: Let_def)
  next
    case False
    with Cons.prems have "(key, frame) \<in> set frames" by auto
    from Cons.IH [OF this Cons.prems(2)] show ?thesis
      using entry rec by (auto simp: Let_def)
  qed
qed

lemma CachedFrame_new_fields:
  "envName (CachedFrame_new R env obj sexp) = env"
  "objName (CachedFrame_new R env obj sexp) = obj"
  "observedSEXP (CachedFrame_new R env obj sexp) = sexp"
  "workingSearch (CachedFrame_new R env obj sexp) = []"
  "workingFilters (CachedFrame_new R env obj sexp) = []"
  "workingOrderDir (CachedFrame_new R env obj sexp) = []"
  "workingOrderCol (CachedFrame_new R env obj sexp) = uninit_workingOrderCol R"
  by (simp_all add: CachedFrame_new_def Let_def)

lemma CachedFrame_new_shape:
  "ncol (CachedFrame_new R env obj sexp) =
     (if sexp = NULL then uninit_ncol R else assigned (uninit_ncol R) (ncol_R R sexp))"
  "colNames (CachedFrame_new R env obj sexp) =
     (if sexp = NULL then []
      else let namesSEXP = assigned (uninit_SEXP R) (names_R R sexp)
           in if isNullSEXP namesSEXP then [] else assigned [] (extract_strings R namesSEXP))"
  by (simp_all add: CachedFrame_new_def Let_def)

lemma onDetectChanges_ok:
  "registry_ok frames \<Longrightarrow> registry_ok (fst (onDetectChanges R frames))"
  by (induction frames)
     (auto simp: registry_ok_def frame_ok_new Let_def split: prod.splits)

text \<open>
  Claim C5, as amended. When the scan finds that the object a registered frame points to
  is no longer the observed one, it calls \<^verbatim>\<open>.rs.removeWorkingData\<close> for the cache key,
  emits a \<^verbatim>\<open>data_view_changed\<close> event with the cache key and with \<^verbatim>\<open>structure_changed\<close>
  true iff the recorded column count differs from what \<^verbatim>\<open>ncol\<close> gives for the new object
  or the recorded column names differ from what \<^verbatim>\<open>names\<close> gives for it, and replaces the
  entry by a frame for the same location and the new object that holds this count and
  these names and whose working search, filters and order direction are empty. (For an
  object that is gone the names are empty and the count is not set.) Nothing is said
  about the working order column of the new frame.
\<close>

theorem changed_frame_is_invalidated:
  assumes "distinct (map fst frames)" "(key, frame) \<in> set frames"
    and "sexp = findInNamedEnvir R (envName frame) (objName frame)"
    and "sexp \<noteq> observedSEXP frame"
    and "newCount =
           (if sexp = NULL then uninit_ncol R else assigned (uninit_ncol R) (ncol_R R sexp))"
    and "newNames =
           (if sexp = NULL then []
            else let namesSEXP = assigned (uninit_SEXP R) (names_R R sexp)
                 in if isNullSEXP namesSEXP then []
                    else assigned [] (extract_strings R namesSEXP))"
  shows "RemoveWorkingData key \<in> set (snd (onDetectChanges R frames)) \<and>
         DataViewChanged key (ncol frame \<noteq> newCount \<or> colNames frame \<noteq> newNames)
           \<in> set (snd (onDetectChanges R frames)) \<and>
         (\<exists>newFrame. map_of (fst (onDetectChanges R frames)) key = Some newFrame \<and>
            envName newFrame = envName frame \<and> objName newFrame = objName frame \<and>
            observedSEXP newFrame = sexp \<and>
            ncol newFrame = newCount \<and> colNames newFrame = newNames \<and>
            workingSearch newFrame = [] \<and> workingFilters newFrame = [] \<and>
            workingOrderDir newFrame = [])"
proof -
  let ?new = "CachedFrame_new R (envName frame) (objName frame) sexp"
  have ch: "findInNamedEnvir R (envName frame) (objName frame) \<noteq> observedSEXP frame"
    using assms(3,4) by simp
  note c = onDetectChanges_changed [OF assms(2) ch]
  have shape: "ncol ?new = newCount" "colNames ?new = newNames"
    using assms(5,6) by (simp_all only: CachedFrame_new_shape)
  have "distinct (map fst (fst (onDetectChanges R frames)))"
    using assms(1) by (simp add: onDetectChanges_keys)
  moreover have "(key, ?new) \<in> set (fst (onDetectChanges R frames))"
    using c assms(3) by simp
  ultimately have m: "map_of (fst (onDetectChanges R frames)) key = Some ?new"
    by (rule map_of_is_SomeI)
  have r: "RemoveWorkingData key \<in> set (snd (onDetectChanges R frames))"
    using c by simp
  have d: "DataViewChanged key (ncol frame \<noteq> newCount \<or> colNames frame \<noteq> newNames)
           \<in> set (snd (onDetectChanges R frames))"
    using c assms(3) shape by simp
  have "envName ?new = envName frame \<and> objName ?new = objName frame \<and>
        observedSEXP ?new = sexp \<and> ncol ?new = newCount \<and> colNames ?new = newNames \<and>
        workingSearch ?new = [] \<and> workingFilters ?new = [] \<and> workingOrderDir ?new = []"
    using shape by (simp add: CachedFrame_new_fields)
  with m r d show ?thesis by blast
qed

text \<open>
  Claim C5 at a frame registered with the columns a and b: an object with the columns
  a, b and c gives \<^verbatim>\<open>structure_changed = true\<close>, an object with the columns a and b
  and other content gives \<^verbatim>\<open>structure_changed = false\<close>.
\<close>

theorem changed_frame_is_invalidated_witness:
  "onDetectChanges (servingHost with_third_column R_NilValue) [(''k1'', freshFrame five_rows)] =
     ([(''k1'', freshFrame with_third_column)],
      [RemoveWorkingData ''k1'', DataViewChanged ''k1'' True]) \<and>
   onDetectChanges (servingHost other_content R_NilValue) [(''k1'', freshFrame five_rows)] =
     ([(''k1'', freshFrame other_content)],
      [RemoveWorkingData ''k1'', DataViewChanged ''k1'' False]) \<and>
   DataViewChanged ''k1'' (ncol (freshFrame five_rows) \<noteq> 3 \<or>
                           colNames (freshFrame five_rows) \<noteq> [''a'', ''b'', ''c''])
     \<in> set (snd (onDetectChanges (servingHost with_third_column R_NilValue)
                    [(''k1'', freshFrame five_rows)])) \<and>
   (\<exists>newFrame. map_of (fst (onDetectChanges (servingHost with_third_column R_NilValue)
                  [(''k1'', freshFrame five_rows)])) ''k1'' = Some newFrame \<and>
      observedSEXP newFrame = with_third_column \<and> ncol newFrame = 3 \<and>
      colNames newFrame = [''a'', ''b'', ''c''] \<and> workingSearch newFrame = [] \<and>
      workingFilters newFrame = [] \<and> workingOrderDir newFrame = [])"
proof -
  let ?R = "servingHost with_third_column R_NilValue"
  have d: "distinct (map fst [(''k1'', freshFrame five_rows)])" by simp
  have m: "(''k1'', freshFrame five_rows) \<in> set [(''k1'', freshFrame five_rows)]" by simp
  have s: "with_third_column =
     findInNamedEnvir ?R (envName (freshFrame five_rows)) (objName (freshFrame five_rows))"
    by code_simp
  have n: "with_third_column \<noteq> observedSEXP (freshFrame five_rows)" by code_simp
  have c: "(3::int32) = (if with_third_column = NULL then uninit_ncol ?R
                         else assigned (uninit_ncol ?R) (ncol_R ?R with_third_column))"
    by code_simp
  have nm: "[''a'', ''b'', ''c''] =
     (if with_third_column = NULL then []
      else let namesSEXP = assigned (uninit_SEXP ?R) (names_R ?R with_third_column)
           in if isNullSEXP namesSEXP then []
              else assigned [] (extract_strings ?R namesSEXP))"
    by code_simp
  have e1: "onDetectChanges ?R [(''k1'', freshFrame five_rows)] =
     ([(''k1'', freshFrame with_third_column)],
      [RemoveWorkingData ''k1'', DataViewChanged ''k1'' True])" by code_simp
  have e2: "onDetectChanges (servingHost other_content R_NilValue) [(''k1'', freshFrame five_rows)] =
     ([(''k1'', freshFrame other_content)],
      [RemoveWorkingData ''k1'', DataViewChanged ''k1'' False])" by code_simp
  from changed_frame_is_invalidated [OF d m s n c nm] e1 e2 show ?thesis by blast
qed

text \<open>
  Claim C5 as it is worded fails for the working order column: the constructor gives it
  no value, so the new frame holds whatever the int holds. The frame was ordered by its
  second column; its object changes; in a session where that int holds 2 the new frame
  is still ordered by column 2, and in one where it holds 7 it is ordered by column 7.
\<close>

theorem changed_frame_is_invalidated_counterexample:
  "workingOrderCol orderedFrame = 2 \<and>
   onDetectChanges (junkHost 2) [(''k1'', orderedFrame)] =
     ([(''k1'', (freshFrame with_third_column)\<lparr>workingOrderCol := 2\<rparr>)],
      [RemoveWorkingData ''k1'', DataViewChanged ''k1'' True]) \<and>
   onDetectChanges (junkHost 7) [(''k1'', orderedFrame)] =
     ([(''k1'', (freshFrame with_third_column)\<lparr>workingOrderCol := 7\<rparr>)],
      [RemoveWorkingData ''k1'', DataViewChanged ''k1'' True])"
  by code_simp

section \<open>The request handler\<close>

lemma applyTransforms_frames:
  "fst (snd (applyTransforms R frames err key d fl s oc od nt)) = frames \<or>
   (\<exists>f. map_of frames key = Some f \<and>
        fst (snd (applyTransforms R frames err key d fl s oc od nt)) =
          map_assign key (f\<lparr>workingSearch := s, workingFilters := fl,
                            workingOrderDir := od, workingOrderCol := oc\<rparr>) frames)"
  by (auto simp: applyTransforms_def Let_def split: option.splits)

lemma getData_frames:
  "\<exists>src nt. fst (snd (getData conv R frames d fv)) =
     fst (snd (applyTransforms R frames None (r_cacheKey (readRequest R d fv)) src
                 (r_filters (readRequest R d fv)) (r_search (readRequest R d fv))
                 (r_ordercol (readRequest R d fv)) (r_orderdir (readRequest R d fv)) nt))"
proof -
  obtain src nt ht where sel:
    "selectSource conv R frames (r_cacheKey (readRequest R d fv)) d (r_search (readRequest R d fv))
       (r_filters (readRequest R d fv)) (r_orderdir (readRequest R d fv))
       (r_ordercol (readRequest R d fv)) (needsTransform0 (readRequest R d fv)) = (src, nt, ht)"
    using prod_cases3 by blast
  have "fst (snd (getData conv R frames d fv)) =
     fst (snd (applyTransforms R frames None (r_cacheKey (readRequest R d fv)) src
                 (r_filters (readRequest R d fv)) (r_search (readRequest R d fv))
                 (r_ordercol (readRequest R d fv)) (r_orderdir (readRequest R d fv)) nt))"
    by (simp add: getData_def Let_def sel split: prod.splits sum.splits)
  then show ?thesis by blast
qed

lemma getData_keeps_entry:
  assumes "map_of frames k = Some f"
  shows "\<exists>f'. map_of (fst (snd (getData conv R frames d fv))) k = Some f' \<and>
           envName f' = envName f \<and> objName f' = objName f \<and> observedSEXP f' = observedSEXP f"
proof -
  from getData_frames [of conv R frames d fv] obtain src nt where
    g: "fst (snd (getData conv R frames d fv)) =
     fst (snd (applyTransforms R frames None (r_cacheKey (readRequest R d fv)) src
                 (r_filters (readRequest R d fv)) (r_search (readRequest R d fv))
                 (r_ordercol (readRequest R d fv)) (r_orderdir (readRequest R d fv)) nt))"
    by blast
  from applyTransforms_frames [of R frames None "r_cacheKey (readRequest R d fv)" src
      "r_filters (readRequest R d fv)" "r_search (readRequest R d fv)"
      "r_ordercol (readRequest R d fv)" "r_orderdir (readRequest R d fv)" nt]
  show ?thesis
    using g assms by (auto simp: map_of_map_assign)
qed

lemma getData_adds_no_entry:
  assumes "map_of frames k = None"
  shows "map_of (fst (snd (getData conv R frames d fv))) k = None"
proof -
  from getData_frames [of conv R frames d fv] obtain src nt where
    g: "fst (snd (getData conv R frames d fv)) =
     fst (snd (applyTransforms R frames None (r_cacheKey (readRequest R d fv)) src
                 (r_filters (readRequest R d fv)) (r_search (readRequest R d fv))
                 (r_ordercol (readRequest R d fv)) (r_orderdir (readRequest R d fv)) nt))"
    by blast
  from applyTransforms_frames [of R frames None "r_cacheKey (readRequest R d fv)" src
      "r_filters (readRequest R d fv)" "r_search (readRequest R d fv)"
      "r_ordercol (readRequest R d fv)" "r_orderdir (readRequest R d fv)" nt]
  show ?thesis
    using g assms by (auto simp: map_of_map_assign)
qed

lemma selectSource_flag:
  "selectSource conv R frames key d s fl od oc nt = (src, nt', ht) \<Longrightarrow> nt' \<Longrightarrow> nt"
  by (auto simp: selectSource_def Let_def split: if_splits option.splits)

lemma applyTransforms_ok:
  assumes "registry_ok frames" "nt \<longrightarrow> 0 < sint oc \<or> hasFilter fl \<or> s \<noteq> []"
  shows "registry_ok (fst (snd (applyTransforms R frames err key d fl s oc od nt)))"
proof -
  have "frame_ok (f\<lparr>workingSearch := s, workingFilters := fl,
                    workingOrderDir := od, workingOrderCol := oc\<rparr>)" if nt for f :: "'a CachedFrame"
    using assms(2) that by (auto simp: frame_ok_def recordsTransform_def)
  then show ?thesis
    using assms(1)
    by (auto simp: applyTransforms_def Let_def registry_ok_map_assign split: option.splits)
qed

lemma getData_ok:
  assumes "registry_ok frames"
  shows "registry_ok (fst (snd (getData conv R frames d fv)))"
proof -
  obtain src nt ht where sel:
    "selectSource conv R frames (r_cacheKey (readRequest R d fv)) d (r_search (readRequest R d fv))
       (r_filters (readRequest R d fv)) (r_orderdir (readRequest R d fv))
       (r_ordercol (readRequest R d fv)) (needsTransform0 (readRequest R d fv)) = (src, nt, ht)"
    using prod_cases3 by blast
  have g: "fst (snd (getData conv R frames d fv)) =
     fst (snd (applyTransforms R frames None (r_cacheKey (readRequest R d fv)) src
                 (r_filters (readRequest R d fv)) (r_search (readRequest R d fv))
                 (r_ordercol (readRequest R d fv)) (r_orderdir (readRequest R d fv)) nt))"
    by (simp add: getData_def Let_def sel split: prod.splits sum.splits)
  have "nt \<longrightarrow> 0 < sint (r_ordercol (readRequest R d fv)) \<or>
          hasFilter (r_filters (readRequest R d fv)) \<or> r_search (readRequest R d fv) \<noteq> []"
    using selectSource_flag [OF sel] by (auto simp: needsTransform0_def)
  with assms show ?thesis unfolding g by (rule applyTransforms_ok)
qed

lemma beginObserving_ok:
  "registry_ok frames \<Longrightarrow> registry_ok (beginObserving R frames env obj key)"
  by (auto simp: beginObserving_def Let_def registry_ok_map_assign frame_ok_new
           split: option.splits)

lemma getGridData_frames:
  assumes "queryStringOf uri = Some queryString"
    and "fieldsv = parseQueryString R queryString"
    and "envNamev = urlDecode R (fieldValue_string fieldsv ''env'' [])"
    and "objNamev = urlDecode R (fieldValue_string fieldsv ''obj'' [])"
    and "cacheKey = urlDecode R (fieldValue_string fieldsv ''cache_key'' [])"
    and "\<not> (objNamev = [] \<and> cacheKey = [])"
  shows "fst (snd (getGridData conv R frames uri response)) =
           beginObserving R frames envNamev objNamev cacheKey \<or>
         (\<exists>d. fst (snd (getGridData conv R frames uri response)) =
           fst (snd (getData conv R (beginObserving R frames envNamev objNamev cacheKey) d fieldsv)))"
proof -
  obtain found logged where fo: "findOriginal R envNamev objNamev cacheKey = (found, logged)"
    by (cases "findOriginal R envNamev objNamev cacheKey") auto
  show ?thesis
  proof (cases found)
    case (Inl stopped)
    with assms fo have "fst (snd (getGridData conv R frames uri response)) =
           beginObserving R frames envNamev objNamev cacheKey"
      by (auto simp: getGridData_def Let_def)
    then show ?thesis by blast
  next
    case (Inr d)
    obtain res fr ef where gd:
      "getData conv R (beginObserving R frames envNamev objNamev cacheKey) d fieldsv = (res, fr, ef)"
      using prod_cases3 by blast
    have "fst (snd (getGridData conv R frames uri response)) =
             beginObserving R frames envNamev objNamev cacheKey \<or>
          fst (snd (getGridData conv R frames uri response)) = fr"
      using assms fo gd Inr
      by (cases res) (auto simp: getGridData_def Let_def)
    then show ?thesis using gd by (metis fst_conv snd_conv)
  qed
qed

text \<open>\<^verbatim>\<open>getGridData\<close> keeps the registry as the handlers build it.\<close>

lemma getGridData_ok:
  assumes "registry_ok frames"
  shows "registry_ok (fst (snd (getGridData conv R frames uri response)))"
proof (cases "queryStringOf uri")
  case None
  with assms show ?thesis by (simp add: getGridData_def)
next
  case (Some queryString)
  let ?fv = "parseQueryString R queryString"
  let ?env = "urlDecode R (fieldValue_string ?fv ''env'' [])"
  let ?obj = "urlDecode R (fieldValue_string ?fv ''obj'' [])"
  let ?key = "urlDecode R (fieldValue_string ?fv ''cache_key'' [])"
  show ?thesis
  proof (cases "?obj = [] \<and> ?key = []")
    case True
    with assms Some show ?thesis by (simp add: getGridData_def Let_def)
  next
    case False
    have b: "registry_ok (beginObserving R frames ?env ?obj ?key)"
      using assms by (rule beginObserving_ok)
    from getGridData_frames [OF Some refl refl refl refl False, of conv frames response]
    show ?thesis using b getData_ok [OF b] by auto
  qed
qed

text \<open>
  Claim C8, as amended. A grid request that names an object or a cache key, whose
  environment is not the marker \<^verbatim>\<open>_rs_no_env\<close> and whose cache key has no entry yet,
  leaves an entry for that key: a frame for the requested location whose observed object
  is what the lookup in the environment gave (null when it gave nothing). A request
  whose environment is \<^verbatim>\<open>_rs_no_env\<close> creates no entry.
\<close>

theorem frame_created_on_first_request:
  fixes conv :: "string \<Rightarrow> 'n \<Rightarrow> 'n::{linorder,zero}"
  assumes q: "queryStringOf uri = Some queryString"
    and f: "fieldsv = parseQueryString R queryString"
    and e: "envNamev = urlDecode R (fieldValue_string fieldsv ''env'' [])"
    and o: "objNamev = urlDecode R (fieldValue_string fieldsv ''obj'' [])"
    and k: "cacheKey = urlDecode R (fieldValue_string fieldsv ''cache_key'' [])"
    and named: "\<not> (objNamev = [] \<and> cacheKey = [])"
    and unseen: "map_of frames cacheKey = None"
  shows "(envNamev \<noteq> kNoBoundEnv \<longrightarrow>
           (\<exists>frame. map_of (fst (snd (getGridData conv R frames uri response))) cacheKey = Some frame \<and>
              envName frame = envNamev \<and> objName frame = objNamev \<and>
              observedSEXP frame = findInNamedEnvir R envNamev objNamev)) \<and>
         (envNamev = kNoBoundEnv \<longrightarrow>
           map_of (fst (snd (getGridData conv R frames uri response))) cacheKey = None)"
proof -
  let ?frames1 = "beginObserving R frames envNamev objNamev cacheKey"
  note cases = getGridData_frames [OF q f e o k named, of conv frames response]
  have a: "\<exists>frame. map_of (fst (snd (getGridData conv R frames uri response))) cacheKey = Some frame \<and>
              envName frame = envNamev \<and> objName frame = objNamev \<and>
              observedSEXP frame = findInNamedEnvir R envNamev objNamev"
    if bound: "envNamev \<noteq> kNoBoundEnv"
  proof -
    let ?new = "CachedFrame_new R envNamev objNamev (findInNamedEnvir R envNamev objNamev)"
    have 1: "map_of ?frames1 cacheKey = Some ?new"
      using bound unseen by (simp add: beginObserving_def Let_def map_of_map_assign)
    from cases show ?thesis
    proof
      assume "fst (snd (getGridData conv R frames uri response)) = ?frames1"
      with 1 show ?thesis by (simp add: CachedFrame_new_fields)
    next
      assume "\<exists>d. fst (snd (getGridData conv R frames uri response)) =
                fst (snd (getData conv R ?frames1 d fieldsv))"
      then obtain d where d: "fst (snd (getGridData conv R frames uri response)) =
                fst (snd (getData conv R ?frames1 d fieldsv))" by blast
      from getData_keeps_entry [OF 1, of conv R d fieldsv] show ?thesis
        using d by (simp add: CachedFrame_new_fields)
    qed
  qed
  have b: "map_of (fst (snd (getGridData conv R frames uri response))) cacheKey = None"
    if unbound: "envNamev = kNoBoundEnv"
  proof -
    have 1: "map_of ?frames1 cacheKey = None"
      using unbound unseen by (simp add: beginObserving_def)
    from cases show ?thesis
      using 1 getData_adds_no_entry [OF 1, of conv R _ fieldsv] by auto
  qed
  from a b show ?thesis by blast
qed

lemma formatColumns_failure:
  assumes "\<forall>j\<in>set pre. \<not> isNullSEXP (VECTOR_ELT R d j) \<and>
             callError (formatDataColumn R (VECTOR_ELT R d j) st len) = None"
    and "\<not> isNullSEXP (VECTOR_ELT R d i)"
    and "callError (formatDataColumn R (VECTOR_ELT R d i) st len) = Some summary"
  shows "formatColumns R d st len (pre @ i # post) = Inl summary"
  using assms by (induction pre) (simp_all add: Let_def)

lemma formatColumns_first_failure:
  assumes "i < n"
    and "\<forall>j<i. \<not> isNullSEXP (VECTOR_ELT R d j) \<and>
             callError (formatDataColumn R (VECTOR_ELT R d j) st len) = None"
    and "\<not> isNullSEXP (VECTOR_ELT R d i)"
    and "callError (formatDataColumn R (VECTOR_ELT R d i) st len) = Some summary"
  shows "formatColumns R d st len [0..<n] = Inl summary"
proof -
  have "[0..<i + (n - i)] = [0..<i] @ [i..<i + (n - i)]"
    by (rule upt_add_eq_append) simp
  then have "[0..<n] = [0..<i] @ i # [Suc i..<n]"
    using assms(1) by (simp add: upt_conv_Cons)
  moreover have "\<forall>j\<in>set [0..<i]. \<not> isNullSEXP (VECTOR_ELT R d j) \<and>
             callError (formatDataColumn R (VECTOR_ELT R d j) st len) = None"
    using assms(2) by simp
  ultimately show ?thesis
    using formatColumns_failure [OF _ assms(3,4)] by metis
qed

lemma applyTransforms_null:
  assumes "isNullSEXP (assigned src (applyTransform R src fl s oc od))"
  shows "applyTransforms R frames None key src fl s oc od True =
           (Inl ''Failure to sort or filter data'', frames, [ApplyTransform src fl s oc od])"
  using assms by (simp add: applyTransforms_def Let_def)

text \<open>
  The summary of a failed \<^verbatim>\<open>transform.call\<close> plays no part in the outcome: the block gives
  the same result whatever error the call reports, as long as it stores the same value.
\<close>

lemma transform_call_error_is_dropped:
  "applyTransforms (R\<lparr>applyTransform := (\<lambda>x fl s oc od.
        RCall anyError (written (applyTransform R x fl s oc od)))\<rparr>)
     frames None key src fl s oc od nt =
   applyTransforms R frames None key src fl s oc od nt"
  by (simp add: applyTransforms_def Let_def assigned_def)

text \<open>
  In a session whose transform reports an error and stores nothing, a request with a
  search is answered as a success, from the data as it was, and that data is saved as
  the working data of the search.
\<close>

lemma failed_transform_is_served:
  "getGridData stringTo_decimal
     ((servingHost five_rows R_NilValue)
        \<lparr>applyTransform := (\<lambda>x filtered search col dir.
            RCall (Some ''invalid regular expression'') None)\<rparr>) []
     ''/grid_data?obj=df&cache_key=k1&draw=1&start=0&length=1&search[value]=a'' emptyResponse =
   (Inr \<lparr>statusCode = Ok,
      body = Some (JGrid \<lparr>draw = 1, recordsTotal = 5, recordsFiltered = 5,
                          data = [[JInt 1, JString ''1'', JString ''v'']]\<rparr>)\<rparr>,
    [(''k1'', (freshFrame five_rows)\<lparr>workingSearch := ''a'', workingFilters := [[], []],
                                      workingOrderDir := ''asc'', workingOrderCol := - 1\<rparr>)],
    [ApplyTransform five_rows [[], []] ''a'' (- 1) ''asc'', SaveWorkingData ''k1'' five_rows])"
  by code_simp

lemma getData_transform_failure:
  assumes "selectSource conv R frames (r_cacheKey (readRequest R d fv)) d
       (r_search (readRequest R d fv)) (r_filters (readRequest R d fv))
       (r_orderdir (readRequest R d fv)) (r_ordercol (readRequest R d fv))
       (needsTransform0 (readRequest R d fv)) = (src, True, ht)"
    and "isNullSEXP (assigned src (applyTransform R src (r_filters (readRequest R d fv))
       (r_search (readRequest R d fv)) (r_ordercol (readRequest R d fv))
       (r_orderdir (readRequest R d fv))))"
  shows "fst (getData conv R frames d fv) = Inl ''Failure to sort or filter data''"
  using assms by (simp add: getData_def Let_def applyTransforms_null)

lemma getData_format_failure:
  assumes sel: "selectSource conv R frames (r_cacheKey (readRequest R d fv)) d
       (r_search (readRequest R d fv)) (r_filters (readRequest R d fv))
       (r_orderdir (readRequest R d fv)) (r_ordercol (readRequest R d fv))
       (needsTransform0 (readRequest R d fv)) = (src, nt, ht)"
    and tr: "applyTransforms R frames None (r_cacheKey (readRequest R d fv)) src
       (r_filters (readRequest R d fv)) (r_search (readRequest R d fv))
       (r_ordercol (readRequest R d fv)) (r_orderdir (readRequest R d fv)) nt = (Inr d', fr, ef)"
    and fm: "formatColumns R d' (r_start (readRequest R d fv) + 1)
       (clampLength (r_length (readRequest R d fv))
          (if nt \<or> ht then assigned 0 (nrow_R R d') else r_nrow (readRequest R d fv))
          (r_start (readRequest R d fv)))
       [0..<unat (r_ncol (readRequest R d fv))] = Inl m"
  shows "fst (getData conv R frames d fv) = Inl m"
  using fm by (simp add: getData_def Let_def sel tr)

lemma getGridData_throw:
  assumes "queryStringOf uri = Some queryString"
    and "fieldsv = parseQueryString R queryString"
    and "envNamev = urlDecode R (fieldValue_string fieldsv ''env'' [])"
    and "objNamev = urlDecode R (fieldValue_string fieldsv ''obj'' [])"
    and "cacheKey = urlDecode R (fieldValue_string fieldsv ''cache_key'' [])"
    and "\<not> (objNamev = [] \<and> cacheKey = [])"
    and "fieldValue_string fieldsv ''show'' ''data'' = ''data''"
    and "findOriginal R envNamev objNamev cacheKey = (Inr dataSEXP, logged)"
    and "\<not> couldNotFind dataSEXP"
    and "fst (getData conv R (beginObserving R frames envNamev objNamev cacheKey) dataSEXP fieldsv)
           = Inl message"
  shows "fst (getGridData conv R frames uri response) =
           Inr (response\<lparr>statusCode := InternalServerError, body := Some (JError message)\<rparr>)"
proof -
  obtain res fr ef where gd:
    "getData conv R (beginObserving R frames envNamev objNamev cacheKey) dataSEXP fieldsv =
       (res, fr, ef)"
    using prod_cases3 by blast
  with assms(10) have "res = Inl message" by simp
  with gd assms(1-9) show ?thesis
    by (auto simp: getGridData_def Let_def)
qed

lemma getGridData_grid:
  assumes "queryStringOf uri = Some queryString"
    and "fieldsv = parseQueryString R queryString"
    and "envNamev = urlDecode R (fieldValue_string fieldsv ''env'' [])"
    and "objNamev = urlDecode R (fieldValue_string fieldsv ''obj'' [])"
    and "cacheKey = urlDecode R (fieldValue_string fieldsv ''cache_key'' [])"
    and "\<not> (objNamev = [] \<and> cacheKey = [])"
    and "fieldValue_string fieldsv ''show'' ''data'' = ''data''"
    and "findOriginal R envNamev objNamev cacheKey = (Inr dataSEXP, logged)"
    and "\<not> couldNotFind dataSEXP"
    and "fst (getData conv R (beginObserving R frames envNamev objNamev cacheKey) dataSEXP fieldsv)
           = Inr g"
  shows "fst (getGridData conv R frames uri response) =
           Inr (response\<lparr>statusCode := Ok, body := Some (JGrid g)\<rparr>)"
proof -
  obtain res fr ef where gd:
    "getData conv R (beginObserving R frames envNamev objNamev cacheKey) dataSEXP fieldsv =
       (res, fr, ef)"
    using prod_cases3 by blast
  with assms(10) have "res = Inr g" by simp
  with gd assms(1-9) show ?thesis
    by (auto simp: getGridData_def Let_def)
qed

lemma getGridData_not_found:
  assumes "queryStringOf uri = Some queryString"
    and "fieldsv = parseQueryString R queryString"
    and "envNamev = urlDecode R (fieldValue_string fieldsv ''env'' [])"
    and "objNamev = urlDecode R (fieldValue_string fieldsv ''obj'' [])"
    and "cacheKey = urlDecode R (fieldValue_string fieldsv ''cache_key'' [])"
    and "\<not> (objNamev = [] \<and> cacheKey = [])"
    and "findOriginal R envNamev objNamev cacheKey = (Inr dataSEXP, logged)"
    and "couldNotFind dataSEXP"
  shows "getGridData conv R frames uri response =
           (Inr (response\<lparr>statusCode := Ok,
                          body := Some (JError ''The object no longer exists.'')\<rparr>),
            beginObserving R frames envNamev objNamev cacheKey, logged)"
  using assms by (auto simp: getGridData_def Let_def)

text \<open>
  When \<^verbatim>\<open>.rs.findDataFrame\<close> stores nothing, \<^verbatim>\<open>dataSEXP\<close> is still the null pointer at
  \<^verbatim>\<open>TYPEOF(dataSEXP)\<close>, and the request gets no response.
\<close>

lemma findOriginal_nothing_stored:
  assumes "written (findDataFrame R envNamev objNamev cacheKey (viewerCacheDir R)) = None"
  shows "fst (findOriginal R envNamev objNamev cacheKey) = Inl NullPointerDereference"
  using assms by (simp add: findOriginal_def Let_def assigned_def)

lemma getGridData_fault:
  assumes "queryStringOf uri = Some queryString"
    and "fieldsv = parseQueryString R queryString"
    and "envNamev = urlDecode R (fieldValue_string fieldsv ''env'' [])"
    and "objNamev = urlDecode R (fieldValue_string fieldsv ''obj'' [])"
    and "cacheKey = urlDecode R (fieldValue_string fieldsv ''cache_key'' [])"
    and "\<not> (objNamev = [] \<and> cacheKey = [])"
    and "written (findDataFrame R envNamev objNamev cacheKey (viewerCacheDir R)) = None"
  shows "fst (getGridData conv R frames uri response) = Inl NullPointerDereference"
proof -
  obtain found logged where fo: "findOriginal R envNamev objNamev cacheKey = (found, logged)"
    by (cases "findOriginal R envNamev objNamev cacheKey") auto
  with findOriginal_nothing_stored [OF assms(7)] have "found = Inl NullPointerDereference"
    by simp
  with fo assms(1-6) show ?thesis by (auto simp: getGridData_def Let_def)
qed

text \<open>
  Claim C8 at a first request for the object \<^verbatim>\<open>df\<close> of the global environment under
  the key \<^verbatim>\<open>k1\<close>, and at the same request with the environment \<^verbatim>\<open>_rs_no_env\<close>.
\<close>

theorem frame_created_on_first_request_witness:
  "(\<exists>frame. map_of (fst (snd (getGridData stringTo_decimal (servingHost five_rows R_NilValue) []
       ''/grid_data?obj=df&cache_key=k1&draw=1&start=0&length=10'' emptyResponse))) ''k1'' = Some frame \<and>
     envName frame = [] \<and> objName frame = ''df'' \<and> observedSEXP frame = five_rows) \<and>
   map_of (fst (snd (getGridData stringTo_decimal (servingHost five_rows R_NilValue) []
       ''/grid_data?env=_rs_no_env&obj=df&cache_key=k1&draw=1&start=0&length=10'' emptyResponse)))
     ''k1'' = None"
proof -
  let ?R = "servingHost five_rows R_NilValue"
  let ?q1 = "''obj=df&cache_key=k1&draw=1&start=0&length=10''"
  let ?q2 = "''env=_rs_no_env&obj=df&cache_key=k1&draw=1&start=0&length=10''"
  have q1: "queryStringOf ''/grid_data?obj=df&cache_key=k1&draw=1&start=0&length=10'' = Some ?q1"
    by code_simp
  have q2: "queryStringOf ''/grid_data?env=_rs_no_env&obj=df&cache_key=k1&draw=1&start=0&length=10''
      = Some ?q2" by code_simp
  have e1: "[] = urlDecode ?R (fieldValue_string (parseQueryString ?R ?q1) ''env'' [])"
    and o1: "''df'' = urlDecode ?R (fieldValue_string (parseQueryString ?R ?q1) ''obj'' [])"
    and k1: "''k1'' = urlDecode ?R (fieldValue_string (parseQueryString ?R ?q1) ''cache_key'' [])"
    by code_simp+
  have e2: "kNoBoundEnv = urlDecode ?R (fieldValue_string (parseQueryString ?R ?q2) ''env'' [])"
    and o2: "''df'' = urlDecode ?R (fieldValue_string (parseQueryString ?R ?q2) ''obj'' [])"
    and k2: "''k1'' = urlDecode ?R (fieldValue_string (parseQueryString ?R ?q2) ''cache_key'' [])"
    by code_simp+
  have n: "\<not> (''df'' = [] \<and> ''k1'' = [])" by simp
  have u: "map_of ([] :: (string \<times> rval CachedFrame) list) ''k1'' = None" by simp
  have b: "[] \<noteq> kNoBoundEnv" by (simp add: kNoBoundEnv_def)
  have s: "findInNamedEnvir ?R [] ''df'' = five_rows" by code_simp
  from frame_created_on_first_request [OF q1 refl e1 o1 k1 n u, of stringTo_decimal emptyResponse]
    frame_created_on_first_request [OF q2 refl e2 o2 k2 n u, of stringTo_decimal emptyResponse]
  show ?thesis using b s by simp
qed

text \<open>
  Claim C8 as it is worded fails for the environment \<^verbatim>\<open>_rs_no_env\<close>: the request carries
  a cache key that is not registered, it is answered with a page of the data, and the
  registry is still empty.
\<close>

theorem frame_created_on_first_request_counterexample:
  "getGridData stringTo_decimal (servingHost five_rows R_NilValue) []
     ''/grid_data?env=_rs_no_env&obj=df&cache_key=k1&draw=1&start=0&length=2'' emptyResponse =
   (Inr \<lparr>statusCode = Ok,
      body = Some (JGrid \<lparr>draw = 1, recordsTotal = 5, recordsFiltered = 5,
                          data = [[JInt 1, JString ''1'', JString ''v''],
                                  [JInt 2, JString ''2'', JString ''w'']]\<rparr>)\<rparr>,
    [], [])"
  by code_simp

text \<open>
  Claim C6 says that a request whose object cannot be resolved is answered with status
  404 and the body \<^verbatim>\<open>{"error": "The object no longer exists."}\<close>. The body is as
  claimed; the status that reaches the response is \<^verbatim>\<open>Ok\<close>. Here no object is bound and
  \<^verbatim>\<open>.rs.findDataFrame\<close> gives \<^verbatim>\<open>R_NilValue\<close>. (\<open>getGridData_not_found\<close> above is the
  same for every session and request.)
\<close>

theorem unresolved_object_is_answered_with_status_ok:
  "getGridData stringTo_decimal demoHost [] ''/grid_data?obj=df&cache_key=k1'' emptyResponse =
   (Inr \<lparr>statusCode = Ok, body = Some (JError ''The object no longer exists.'')\<rparr>,
    [(''k1'', freshFrame NULL)], [])"
  by code_simp

lemma findOriginal_logged:
  "snd (findOriginal R envNamev objNamev cacheKey) =
     (case callError (findDataFrame R envNamev objNamev cacheKey (viewerCacheDir R)) of
        Some summary \<Rightarrow> [LogError summary] | None \<Rightarrow> [])"
  by (simp add: findOriginal_def Let_def split: SEXP.splits)

lemma getGridData_effects:
  assumes "queryStringOf uri = Some queryString"
    and "fieldsv = parseQueryString R queryString"
    and "envNamev = urlDecode R (fieldValue_string fieldsv ''env'' [])"
    and "objNamev = urlDecode R (fieldValue_string fieldsv ''obj'' [])"
    and "cacheKey = urlDecode R (fieldValue_string fieldsv ''cache_key'' [])"
    and "\<not> (objNamev = [] \<and> cacheKey = [])"
    and "fieldValue_string fieldsv ''show'' ''data'' = ''data''"
    and "findOriginal R envNamev objNamev cacheKey = (Inr dataSEXP, logged)"
    and "\<not> couldNotFind dataSEXP"
  shows "snd (snd (getGridData conv R frames uri response)) =
           logged @ snd (snd (getData conv R
             (beginObserving R frames envNamev objNamev cacheKey) dataSEXP fieldsv))"
proof -
  obtain res fr ef where gd:
    "getData conv R (beginObserving R frames envNamev objNamev cacheKey) dataSEXP fieldsv =
       (res, fr, ef)"
    using prod_cases3 by blast
  with assms show ?thesis
    by (cases res) (auto simp: getGridData_def Let_def)
qed

text \<open>
  Claim C7, as amended. For a page request that reaches \<^verbatim>\<open>getData\<close> (the lookup of the
  data frame has stored an object that is there, and the data is asked for): when a
  transform is needed and the call leaves a null or nil result, the request is answered
  with status 500 and the error \<^verbatim>\<open>Failure to sort or filter data\<close>; when formatting a
  column for the page fails (the columns before it being present and formatted for that
  page), it is answered with status 500 and the summary of that failure; every message
  thrown by \<^verbatim>\<open>getData\<close> reaches the client in this way, and a grid that \<^verbatim>\<open>getData\<close>
  returns is sent with status 200. An error that the lookup of the data frame reports
  is written to the log. Nothing is said here about a transform call that reports an
  error and leaves a result that is not null, nor about the calls whose error is not
  looked at.
\<close>

theorem thrown_errors_reach_the_client:
  fixes conv :: "string \<Rightarrow> 'n \<Rightarrow> 'n::{linorder,zero}"
  assumes q: "queryStringOf uri = Some queryString"
    and f: "fieldsv = parseQueryString R queryString"
    and e: "envNamev = urlDecode R (fieldValue_string fieldsv ''env'' [])"
    and o: "objNamev = urlDecode R (fieldValue_string fieldsv ''obj'' [])"
    and k: "cacheKey = urlDecode R (fieldValue_string fieldsv ''cache_key'' [])"
    and named: "\<not> (objNamev = [] \<and> cacheKey = [])"
    and shown: "fieldValue_string fieldsv ''show'' ''data'' = ''data''"
    and found: "findOriginal R envNamev objNamev cacheKey = (Inr dataSEXP, logged)"
      "\<not> couldNotFind dataSEXP"
    and fr: "frames1 = beginObserving R frames envNamev objNamev cacheKey"
    and rq: "rq = readRequest R dataSEXP fieldsv"
    and sel: "selectSource conv R frames1 (r_cacheKey rq) dataSEXP (r_search rq) (r_filters rq)
                (r_orderdir rq) (r_ordercol rq) (needsTransform0 rq) =
              (source, needsTransform, hasTransform)"
  shows
    "(needsTransform \<and>
      isNullSEXP (assigned source (applyTransform R source (r_filters rq) (r_search rq)
                    (r_ordercol rq) (r_orderdir rq))) \<longrightarrow>
        fst (getGridData conv R frames uri response) =
          Inr (response\<lparr>statusCode := InternalServerError,
                        body := Some (JError ''Failure to sort or filter data'')\<rparr>)) \<and>
     (\<forall>dataSEXP' frames' effects i summary.
        applyTransforms R frames1 None (r_cacheKey rq) source (r_filters rq) (r_search rq)
          (r_ordercol rq) (r_orderdir rq) needsTransform = (Inr dataSEXP', frames', effects) \<and>
        i < unat (r_ncol rq) \<and>
        (\<forall>j<i. \<not> isNullSEXP (VECTOR_ELT R dataSEXP' j) \<and>
           callError (formatDataColumn R (VECTOR_ELT R dataSEXP' j) (r_start rq + 1)
             (clampLength (r_length rq)
                (if needsTransform \<or> hasTransform then assigned 0 (nrow_R R dataSEXP')
                 else r_nrow rq)
                (r_start rq))) = None) \<and>
        \<not> isNullSEXP (VECTOR_ELT R dataSEXP' i) \<and>
        callError (formatDataColumn R (VECTOR_ELT R dataSEXP' i) (r_start rq + 1)
          (clampLength (r_length rq)
             (if needsTransform \<or> hasTransform then assigned 0 (nrow_R R dataSEXP')
              else r_nrow rq)
             (r_start rq))) = Some summary \<longrightarrow>
        fst (getGridData conv R frames uri response) =
          Inr (response\<lparr>statusCode := InternalServerError, body := Some (JError summary)\<rparr>)) \<and>
     (\<forall>message. fst (getData conv R frames1 dataSEXP fieldsv) = Inl message \<longrightarrow>
        fst (getGridData conv R frames uri response) =
          Inr (response\<lparr>statusCode := InternalServerError, body := Some (JError message)\<rparr>)) \<and>
     (\<forall>g. fst (getData conv R frames1 dataSEXP fieldsv) = Inr g \<longrightarrow>
        fst (getGridData conv R frames uri response) =
          Inr (response\<lparr>statusCode := Ok, body := Some (JGrid g)\<rparr>)) \<and>
     snd (snd (getGridData conv R frames uri response)) =
       (case callError (findDataFrame R envNamev objNamev cacheKey (viewerCacheDir R)) of
          Some summary \<Rightarrow> [LogError summary] | None \<Rightarrow> []) @
       snd (snd (getData conv R frames1 dataSEXP fieldsv))"
proof -
  have logs: "snd (snd (getGridData conv R frames uri response)) =
       (case callError (findDataFrame R envNamev objNamev cacheKey (viewerCacheDir R)) of
          Some summary \<Rightarrow> [LogError summary] | None \<Rightarrow> []) @
       snd (snd (getData conv R frames1 dataSEXP fieldsv))"
    using getGridData_effects [OF q f e o k named shown found, of conv frames response]
      findOriginal_logged [of R envNamev objNamev cacheKey] found(1) fr by simp
  have thrown: "fst (getGridData conv R frames uri response) =
          Inr (response\<lparr>statusCode := InternalServerError, body := Some (JError message)\<rparr>)"
    if "fst (getData conv R frames1 dataSEXP fieldsv) = Inl message" for message
    using getGridData_throw [OF q f e o k named shown found, of conv frames message response]
      that fr by simp
  have sent: "fst (getGridData conv R frames uri response) =
          Inr (response\<lparr>statusCode := Ok, body := Some (JGrid g)\<rparr>)"
    if "fst (getData conv R frames1 dataSEXP fieldsv) = Inr g" for g
    using getGridData_grid [OF q f e o k named shown found, of conv frames g response]
      that fr by simp
  have sel': "selectSource conv R frames1 (r_cacheKey (readRequest R dataSEXP fieldsv)) dataSEXP
       (r_search (readRequest R dataSEXP fieldsv)) (r_filters (readRequest R dataSEXP fieldsv))
       (r_orderdir (readRequest R dataSEXP fieldsv)) (r_ordercol (readRequest R dataSEXP fieldsv))
       (needsTransform0 (readRequest R dataSEXP fieldsv)) = (source, needsTransform, hasTransform)"
    using sel rq by simp
  have a: "fst (getData conv R frames1 dataSEXP fieldsv) = Inl ''Failure to sort or filter data''"
    if "needsTransform" "isNullSEXP (assigned source (applyTransform R source (r_filters rq)
          (r_search rq) (r_ordercol rq) (r_orderdir rq)))"
    using getData_transform_failure [of conv R frames1 dataSEXP fieldsv source hasTransform]
      sel' that rq by simp
  have b: "fst (getData conv R frames1 dataSEXP fieldsv) = Inl summary"
    if h: "applyTransforms R frames1 None (r_cacheKey rq) source (r_filters rq) (r_search rq)
          (r_ordercol rq) (r_orderdir rq) needsTransform = (Inr dataSEXP', frames', effects)"
       "i < unat (r_ncol rq)"
       "\<forall>j<i. \<not> isNullSEXP (VECTOR_ELT R dataSEXP' j) \<and>
           callError (formatDataColumn R (VECTOR_ELT R dataSEXP' j) (r_start rq + 1)
             (clampLength (r_length rq)
                (if needsTransform \<or> hasTransform then assigned 0 (nrow_R R dataSEXP')
                 else r_nrow rq)
                (r_start rq))) = None"
       "\<not> isNullSEXP (VECTOR_ELT R dataSEXP' i)"
       "callError (formatDataColumn R (VECTOR_ELT R dataSEXP' i) (r_start rq + 1)
          (clampLength (r_length rq)
             (if needsTransform \<or> hasTransform then assigned 0 (nrow_R R dataSEXP')
              else r_nrow rq)
             (r_start rq))) = Some summary"
    for dataSEXP' frames' effects i summary
  proof -
    have fc: "formatColumns R dataSEXP' (r_start rq + 1)
            (clampLength (r_length rq)
               (if needsTransform \<or> hasTransform then assigned 0 (nrow_R R dataSEXP')
                else r_nrow rq)
               (r_start rq))
            [0..<unat (r_ncol rq)] = Inl summary"
      using h(2-5) by (rule formatColumns_first_failure)
    show ?thesis
      by (rule getData_format_failure [OF sel' h(1) [unfolded rq] fc [unfolded rq]])
  qed
  have 1: "needsTransform \<and>
      isNullSEXP (assigned source (applyTransform R source (r_filters rq) (r_search rq)
                    (r_ordercol rq) (r_orderdir rq))) \<longrightarrow>
        fst (getGridData conv R frames uri response) =
          Inr (response\<lparr>statusCode := InternalServerError,
                        body := Some (JError ''Failure to sort or filter data'')\<rparr>)"
    using a thrown by blast
  have 2: "\<forall>dataSEXP' frames' effects i summary.
        applyTransforms R frames1 None (r_cacheKey rq) source (r_filters rq) (r_search rq)
          (r_ordercol rq) (r_orderdir rq) needsTransform = (Inr dataSEXP', frames', effects) \<and>
        i < unat (r_ncol rq) \<and>
        (\<forall>j<i. \<not> isNullSEXP (VECTOR_ELT R dataSEXP' j) \<and>
           callError (formatDataColumn R (VECTOR_ELT R dataSEXP' j) (r_start rq + 1)
             (clampLength (r_length rq)
                (if needsTransform \<or> hasTransform then assigned 0 (nrow_R R dataSEXP')
                 else r_nrow rq)
                (r_start rq))) = None) \<and>
        \<not> isNullSEXP (VECTOR_ELT R dataSEXP' i) \<and>
        callError (formatDataColumn R (VECTOR_ELT R dataSEXP' i) (r_start rq + 1)
          (clampLength (r_length rq)
             (if needsTransform \<or> hasTransform then assigned 0 (nrow_R R dataSEXP')
              else r_nrow rq)
             (r_start rq))) = Some summary \<longrightarrow>
        fst (getGridData conv R frames uri response) =
          Inr (response\<lparr>statusCode := InternalServerError, body := Some (JError summary)\<rparr>)"
  proof (intro allI impI)
    fix dataSEXP' frames' effects i summary
    assume hyp: "applyTransforms R frames1 None (r_cacheKey rq) source (r_filters rq) (r_search rq)
          (r_ordercol rq) (r_orderdir rq) needsTransform = (Inr dataSEXP', frames', effects) \<and>
        i < unat (r_ncol rq) \<and>
        (\<forall>j<i. \<not> isNullSEXP (VECTOR_ELT R dataSEXP' j) \<and>
           callError (formatDataColumn R (VECTOR_ELT R dataSEXP' j) (r_start rq + 1)
             (clampLength (r_length rq)
                (if needsTransform \<or> hasTransform then assigned 0 (nrow_R R dataSEXP')
                 else r_nrow rq)
                (r_start rq))) = None) \<and>
        \<not> isNullSEXP (VECTOR_ELT R dataSEXP' i) \<and>
        callError (formatDataColumn R (VECTOR_ELT R dataSEXP' i) (r_start rq + 1)
          (clampLength (r_length rq)
             (if needsTransform \<or> hasTransform then assigned 0 (nrow_R R dataSEXP')
              else r_nrow rq)
             (r_start rq))) = Some summary"
    have "fst (getData conv R frames1 dataSEXP fieldsv) = Inl summary"
      using b [of dataSEXP' frames' effects i summary] hyp by blast
    then show "fst (getGridData conv R frames uri response) =
          Inr (response\<lparr>statusCode := InternalServerError, body := Some (JError summary)\<rparr>)"
      by (rule thrown)
  qed
  from 1 2 thrown sent logs show ?thesis by blast
qed

text \<open>
  Claim C7 at a session whose transform leaves \<^verbatim>\<open>R_NilValue\<close>, at one whose column
  formatter always fails, and at one whose column formatter fails for the page that is
  asked for (start 10 and length 10 against five rows, a length of -5) and for no page
  of a length that is not negative.
\<close>

theorem thrown_errors_reach_the_client_witness:
  "fst (getGridData stringTo_decimal nullTransformHost []
          ''/grid_data?obj=df&cache_key=k1&search[value]=a'' emptyResponse) =
     Inr \<lparr>statusCode = InternalServerError,
          body = Some (JError ''Failure to sort or filter data'')\<rparr> \<and>
   fst (getGridData stringTo_decimal formatFailHost []
          ''/grid_data?obj=df&cache_key=k1'' emptyResponse) =
     Inr \<lparr>statusCode = InternalServerError, body = Some (JError ''cannot format'')\<rparr> \<and>
   fst (getGridData stringTo_decimal strictHost []
          ''/grid_data?obj=df&cache_key=k1&start=10&length=10'' emptyResponse) =
     Inr \<lparr>statusCode = InternalServerError, body = Some (JError ''invalid length'')\<rparr>"
proof -
  let ?N = "nullTransformHost"
  let ?qn = "''obj=df&cache_key=k1&search[value]=a''"
  let ?fn = "parseQueryString ?N ?qn"
  let ?en = "urlDecode ?N (fieldValue_string ?fn ''env'' [])"
  let ?on = "urlDecode ?N (fieldValue_string ?fn ''obj'' [])"
  let ?kn = "urlDecode ?N (fieldValue_string ?fn ''cache_key'' [])"
  let ?rn = "readRequest ?N five_rows ?fn"
  have qn: "queryStringOf ''/grid_data?obj=df&cache_key=k1&search[value]=a'' = Some ?qn"
    by code_simp
  have nn: "\<not> (?on = [] \<and> ?kn = [])" by code_simp
  have sn: "fieldValue_string ?fn ''show'' ''data'' = ''data''" by code_simp
  have fn: "findOriginal ?N ?en ?on ?kn = (Inr five_rows, [])" "\<not> couldNotFind five_rows"
    by code_simp+
  have seln: "selectSource stringTo_decimal ?N (beginObserving ?N [] ?en ?on ?kn)
      (r_cacheKey ?rn) five_rows (r_search ?rn) (r_filters ?rn) (r_orderdir ?rn) (r_ordercol ?rn)
      (needsTransform0 ?rn) = (five_rows, True, False)" by code_simp
  have nulln: "isNullSEXP (assigned five_rows (applyTransform ?N five_rows (r_filters ?rn)
      (r_search ?rn) (r_ordercol ?rn) (r_orderdir ?rn)))" by code_simp
  let ?F = "formatFailHost"
  let ?qf = "''obj=df&cache_key=k1''"
  let ?ff = "parseQueryString ?F ?qf"
  let ?ef = "urlDecode ?F (fieldValue_string ?ff ''env'' [])"
  let ?of = "urlDecode ?F (fieldValue_string ?ff ''obj'' [])"
  let ?kf = "urlDecode ?F (fieldValue_string ?ff ''cache_key'' [])"
  let ?rf = "readRequest ?F five_rows ?ff"
  have qf: "queryStringOf ''/grid_data?obj=df&cache_key=k1'' = Some ?qf" by code_simp
  have nf: "\<not> (?of = [] \<and> ?kf = [])" by code_simp
  have sf: "fieldValue_string ?ff ''show'' ''data'' = ''data''" by code_simp
  have ff: "findOriginal ?F ?ef ?of ?kf = (Inr five_rows, [])" by code_simp
  have self: "selectSource stringTo_decimal ?F (beginObserving ?F [] ?ef ?of ?kf)
      (r_cacheKey ?rf) five_rows (r_search ?rf) (r_filters ?rf) (r_orderdir ?rf) (r_ordercol ?rf)
      (needsTransform0 ?rf) = (five_rows, False, False)" by code_simp
  have trf: "applyTransforms ?F (beginObserving ?F [] ?ef ?of ?kf) None (r_cacheKey ?rf) five_rows
      (r_filters ?rf) (r_search ?rf) (r_ordercol ?rf) (r_orderdir ?rf) False =
      (Inr five_rows, beginObserving ?F [] ?ef ?of ?kf, [])"
    by (simp add: applyTransforms_def)
  have colf: "(0::nat) < unat (r_ncol ?rf)" "\<not> isNullSEXP (VECTOR_ELT ?F five_rows 0)"
    by code_simp+
  have failf: "callError (formatDataColumn ?F (VECTOR_ELT ?F five_rows 0) (r_start ?rf + 1)
      (clampLength (r_length ?rf)
         (if False \<or> False then assigned 0 (nrow_R ?F five_rows) else r_nrow ?rf)
         (r_start ?rf))) = Some ''cannot format''"
    by code_simp
  let ?S = "strictHost"
  let ?qs = "''obj=df&cache_key=k1&start=10&length=10''"
  let ?fs = "parseQueryString ?S ?qs"
  let ?es = "urlDecode ?S (fieldValue_string ?fs ''env'' [])"
  let ?os = "urlDecode ?S (fieldValue_string ?fs ''obj'' [])"
  let ?ks = "urlDecode ?S (fieldValue_string ?fs ''cache_key'' [])"
  let ?rs = "readRequest ?S five_rows ?fs"
  have qs: "queryStringOf ''/grid_data?obj=df&cache_key=k1&start=10&length=10'' = Some ?qs"
    by code_simp
  have ns: "\<not> (?os = [] \<and> ?ks = [])" by code_simp
  have ss: "fieldValue_string ?fs ''show'' ''data'' = ''data''" by code_simp
  have fs: "findOriginal ?S ?es ?os ?ks = (Inr five_rows, [])" by code_simp
  have sels: "selectSource stringTo_decimal ?S (beginObserving ?S [] ?es ?os ?ks)
      (r_cacheKey ?rs) five_rows (r_search ?rs) (r_filters ?rs) (r_orderdir ?rs) (r_ordercol ?rs)
      (needsTransform0 ?rs) = (five_rows, False, False)" by code_simp
  have trs: "applyTransforms ?S (beginObserving ?S [] ?es ?os ?ks) None (r_cacheKey ?rs) five_rows
      (r_filters ?rs) (r_search ?rs) (r_ordercol ?rs) (r_orderdir ?rs) False =
      (Inr five_rows, beginObserving ?S [] ?es ?os ?ks, [])"
    by (simp add: applyTransforms_def)
  have cols: "(0::nat) < unat (r_ncol ?rs)" "\<not> isNullSEXP (VECTOR_ELT ?S five_rows 0)"
    by code_simp+
  have fails: "callError (formatDataColumn ?S (VECTOR_ELT ?S five_rows 0) (r_start ?rs + 1)
      (clampLength (r_length ?rs)
         (if False \<or> False then assigned 0 (nrow_R ?S five_rows) else r_nrow ?rs)
         (r_start ?rs))) = Some ''invalid length''"
    by code_simp
  from thrown_errors_reach_the_client
         [OF qn refl refl refl refl nn sn fn refl refl seln, of emptyResponse] nulln
  have 1: "fst (getGridData stringTo_decimal ?N []
          ''/grid_data?obj=df&cache_key=k1&search[value]=a'' emptyResponse) =
     Inr (emptyResponse\<lparr>statusCode := InternalServerError,
      body := Some (JError ''Failure to sort or filter data'')\<rparr>)" by blast
  note tf = thrown_errors_reach_the_client
         [OF qf refl refl refl refl nf sf ff fn(2) refl refl self, of emptyResponse,
          THEN conjunct2, THEN conjunct1, rule_format,
          of five_rows "beginObserving ?F [] ?ef ?of ?kf" "[]" 0 "''cannot format''"]
  have 2: "fst (getGridData stringTo_decimal ?F [] ''/grid_data?obj=df&cache_key=k1'' emptyResponse) =
          Inr (emptyResponse\<lparr>statusCode := InternalServerError,
                             body := Some (JError ''cannot format'')\<rparr>)"
    using tf trf colf failf by simp
  note ts = thrown_errors_reach_the_client
         [OF qs refl refl refl refl ns ss fs fn(2) refl refl sels, of emptyResponse,
          THEN conjunct2, THEN conjunct1, rule_format,
          of five_rows "beginObserving ?S [] ?es ?os ?ks" "[]" 0 "''invalid length''"]
  have 3: "fst (getGridData stringTo_decimal ?S []
          ''/grid_data?obj=df&cache_key=k1&start=10&length=10'' emptyResponse) =
          Inr (emptyResponse\<lparr>statusCode := InternalServerError,
                             body := Some (JError ''invalid length'')\<rparr>)"
    using ts trs cols fails by simp
  from 1 2 3 show ?thesis by (simp add: emptyResponse_def)
qed

text \<open>
  Claim C7 as it is worded fails: not every failed call fails the request with the
  message of the failure. A failed \<^verbatim>\<open>nrow\<close> is not noticed at all: the request is
  served, with the initial row count 1. A failed \<^verbatim>\<open>.rs.findDataFrame\<close> is logged; the
  handler then reads the type of the null pointer that is left, and the client gets no
  message.
\<close>

theorem thrown_errors_reach_the_client_counterexample:
  "getGridData stringTo_decimal noRowCountHost []
     ''/grid_data?obj=df&cache_key=k1&draw=1&start=0&length=2'' emptyResponse =
     (Inr \<lparr>statusCode = Ok,
        body = Some (JGrid \<lparr>draw = 1, recordsTotal = 1, recordsFiltered = 1,
                            data = [[JInt 1, JString ''1'', JString ''v'']]\<rparr>)\<rparr>,
      [(''k1'', freshFrame five_rows)], []) \<and>
   getGridData stringTo_decimal lostCacheHost [] ''/grid_data?obj=df&cache_key=k1'' emptyResponse =
     (Inl NullPointerDereference, [(''k1'', freshFrame NULL)],
      [LogError ''cannot read the cache''])"
  by code_simp

end
